theory Spec2Isabelle
  imports Main
begin

section \<open>Text and the chunker\<close>

text \<open>
  A Python \<open>str\<close> holding file content is a sequence of Unicode code points; \<open>len\<close>
  counts code points, so the text is a list of natural numbers. \<open>is_space\<close> is the
  set of code points for which \<open>str.isspace\<close> holds, which is what \<open>str.strip()\<close>
  without an argument removes at both ends.
\<close>

type_synonym pystr = "nat list"

definition is_space :: "nat \<Rightarrow> bool" where
  "is_space c \<longleftrightarrow>
     (9 \<le> c \<and> c \<le> 13) \<or> (28 \<le> c \<and> c \<le> 32) \<or> c = 133 \<or> c = 160 \<or>
     c = 5760 \<or> (8192 \<le> c \<and> c \<le> 8202) \<or> c = 8232 \<or> c = 8233 \<or>
     c = 8239 \<or> c = 8287 \<or> c = 12288"

definition strip :: "pystr \<Rightarrow> pystr" where
  "strip s = rev (dropWhile is_space (rev (dropWhile is_space s)))"

text \<open>
  \<open>xs[a:b]\<close> with Python's rules: a negative bound counts from the end, and both
  bounds are clipped to the list; the slice is empty when the bounds cross.
\<close>

definition py_slice :: "'a list \<Rightarrow> int \<Rightarrow> int \<Rightarrow> 'a list" where
  "py_slice xs a b =
     (let n = int (length xs);
          lo = (if a < 0 then max 0 (n + a) else min a n);
          hi = (if b < 0 then max 0 (n + b) else min b n)
      in take (nat (hi - lo)) (drop (nat lo) xs))"

text \<open>
  The \<open>while start < len(text)\<close> loop of \<open>chunk_text\<close>. The loop has no guard on
  \<open>overlap\<close>, so it need not end: not returning is the value \<open>None\<close>.
  (\<open>end\<close> is written \<open>end_pos\<close>.)
\<close>

partial_function (option) chunk_loop ::
  "pystr \<Rightarrow> int \<Rightarrow> int \<Rightarrow> int \<Rightarrow> pystr list \<Rightarrow> pystr list option" where
  "chunk_loop txt chunk_size overlap start chunks =
     (if start < int (length txt) then
        (let end_pos = start + chunk_size;
             chunk = py_slice txt start end_pos
         in chunk_loop txt chunk_size overlap (end_pos - overlap)
              (if strip chunk \<noteq> [] then chunks @ [chunk] else chunks))
      else Some chunks)"

declare chunk_loop.simps [code]

definition chunk_text :: "pystr \<Rightarrow> int \<Rightarrow> int \<Rightarrow> pystr list option" where
  "chunk_text txt chunk_size overlap = chunk_loop txt chunk_size overlap 0 []"

section \<open>Paths\<close>

text \<open>
  A \<open>pathlib.Path\<close> is modelled by its \<open>parts\<close>: the root \<open>''/''\<close> first when the
  path is absolute, then one component per segment. Path strings are byte strings, and
  \<open>lower\<close> maps the ASCII capitals.
\<close>

type_synonym path = "string list"

definition is_absolute :: "path \<Rightarrow> bool" where
  "is_absolute p = (case p of [] \<Rightarrow> False | r # _ \<Rightarrow> r \<noteq> [] \<and> hd r = CHR ''/'')"

definition absolute :: "path \<Rightarrow> path \<Rightarrow> path" where
  "absolute cwd p = (if is_absolute p then p else cwd @ p)"

fun join_sep :: "string list \<Rightarrow> string" where
  "join_sep [] = []"
| "join_sep [x] = x"
| "join_sep (x # y # ys) = x @ ''/'' @ join_sep (y # ys)"

definition path_str :: "path \<Rightarrow> string" where
  "path_str p =
     (if p = [] then ''.''
      else if is_absolute p then hd p @ join_sep (tl p)
      else join_sep p)"

definition name :: "path \<Rightarrow> string" where
  "name p = (if p = [] \<or> (is_absolute p \<and> length p = 1) then [] else last p)"

definition rfind :: "char \<Rightarrow> string \<Rightarrow> int" where
  "rfind c s =
     (if c \<in> set s then int (length s) - 1 - int (length (takeWhile (\<lambda>x. x \<noteq> c) (rev s)))
      else - 1)"

definition suffix :: "path \<Rightarrow> string" where
  "suffix p =
     (let n = name p; i = rfind (CHR ''.'') n
      in if 0 < i \<and> i < int (length n) - 1 then drop (nat i) n else [])"

definition lower_char :: "char \<Rightarrow> char" where
  "lower_char c =
     (case map_of (zip ''ABCDEFGHIJKLMNOPQRSTUVWXYZ'' ''abcdefghijklmnopqrstuvwxyz'') c of
        Some l \<Rightarrow> l
      | None \<Rightarrow> c)"

definition lower :: "string \<Rightarrow> string" where
  "lower s = map lower_char s"

definition startswith :: "string \<Rightarrow> string \<Rightarrow> bool" where
  "startswith s pre = (take (length pre) s = pre)"

text \<open>\<open>str(i)\<close> for a non-negative integer: its decimal digits.\<close>

definition digit_char :: "nat \<Rightarrow> char" where
  "digit_char d = ''0123456789'' ! d"

definition is_digit :: "char \<Rightarrow> bool" where
  "is_digit c \<longleftrightarrow> c \<in> set ''0123456789''"

fun str_nat :: "nat \<Rightarrow> string" where
  "str_nat n = (if n < 10 then [digit_char n] else str_nat (n div 10) @ [digit_char (n mod 10)])"

declare str_nat.simps [simp del]

section \<open>The file system as the indexer sees it\<close>

text \<open>
  What the three file operations of \<open>index_file\<close> give for one path:
  \<open>path.exists() and path.is_file()\<close>, \<open>path.read_text(encoding='utf-8')\<close> and
  \<open>file_hash\<close>, which opens the file a second time and digests its bytes. The digest
  itself is a value of the view (the hex string of the MD5).  The two reads are separate
  system calls, so each has an outcome of its own.
\<close>

datatype text_read = Text pystr | Undecodable | Text_io_error

datatype digest_read = Digest string | Digest_io_error

record file_view =
  fv_is_file :: bool
  fv_text :: text_read
  fv_digest :: digest_read

text \<open>A directory tree, as \<open>rglob\<close> enumerates it.\<close>

datatype tree = File string | Dir string "tree list"

fun rglob_node :: "path \<Rightarrow> tree \<Rightarrow> (path \<times> bool) list" where
  "rglob_node parent (File n) = [(parent @ [n], True)]"
| "rglob_node parent (Dir n ts) =
     (parent @ [n], False) # concat (map (rglob_node (parent @ [n])) ts)"

text \<open>
  \<open>dir_path.rglob('*')\<close>: every entry below \<open>dir_path\<close>, hidden ones too, each with
  what \<open>is_file()\<close> answers for it. The order is that of the listing.
\<close>

definition rglob :: "path \<Rightarrow> tree list \<Rightarrow> (path \<times> bool) list" where
  "rglob dir_path children = concat (map (rglob_node dir_path) children)"

section \<open>The vector store and the embedder\<close>

text \<open>
  The ChromaDB collection is a list of records in insertion order. \<open>get\<close> filters on the
  \<open>path\<close> metadata, \<open>delete\<close> removes by id. \<open>add\<close> never overwrites: for an id that
  is already present the library either leaves the stored record as it is
  (\<open>Skip_existing\<close>, the releases that have \<open>PersistentClient\<close>) or rejects the batch
  (\<open>Raise_existing\<close>); the choice is a parameter.
\<close>

record metadata =
  m_path :: string
  m_filename :: string
  m_chunk_idx :: nat
  m_hash :: string

record 'e chunk =
  c_id :: string
  c_embedding :: 'e
  c_document :: pystr
  c_metadata :: metadata

type_synonym 'e collection = "'e chunk list"

datatype exn = OSError | DuplicateIDError | IndexError | KeyError string

datatype 'a outcome = Returns 'a | Raises exn | Diverges

datatype add_policy = Skip_existing | Raise_existing

definition coll_get :: "'e collection \<Rightarrow> string \<Rightarrow> 'e chunk list" where
  "coll_get c p = filter (\<lambda>r. m_path (c_metadata r) = p) c"

definition coll_delete :: "'e collection \<Rightarrow> string list \<Rightarrow> 'e collection" where
  "coll_delete c ids = filter (\<lambda>r. c_id r \<notin> set ids) c"

definition coll_add :: "add_policy \<Rightarrow> 'e collection \<Rightarrow> 'e chunk list \<Rightarrow> exn + 'e collection" where
  "coll_add pol c recs =
     (case pol of
        Skip_existing \<Rightarrow> Inr (c @ filter (\<lambda>r. c_id r \<notin> set (map c_id c)) recs)
      | Raise_existing \<Rightarrow>
          if list_ex (\<lambda>r. c_id r \<in> set (map c_id c)) recs then Inl DuplicateIDError
          else Inr (c @ recs))"

text \<open>The calls made to the store and to the embedder, in the order they are made.\<close>

datatype call =
    Call_get string
  | Call_get_all
  | Call_delete "string list"
  | Call_encode "pystr list"
  | Call_add "string list"
  | Call_query int
  | Call_count

record 'e world =
  store :: "'e collection"
  calls :: "call list"

definition called :: "call \<Rightarrow> 'e world \<Rightarrow> 'e world" where
  "called c w = w\<lparr>calls := calls w @ [c]\<rparr>"

record 'd query_result =
  q_ids :: "string list list"
  q_distances :: "'d list list"
  q_documents :: "pystr list list"
  q_metadatas :: "metadata list list"

text \<open>
  The collaborators and the surroundings of a call: the working directory, the file
  system, the embedding of one text (\<open>encode\<close> maps it over the batch), the store's
  \<open>add\<close> rule, its nearest-neighbour query, what a database location holds when it is
  opened, and the expansion of \<open>~/.jb-recall/db\<close>.
\<close>

record ('e, 'd) env =
  cwd :: path
  fs :: "path \<Rightarrow> file_view"
  listing :: "path \<Rightarrow> tree list"
  embed :: "pystr \<Rightarrow> 'e"
  policy :: add_policy
  nearest :: "'e collection \<Rightarrow> 'e list \<Rightarrow> int \<Rightarrow> 'd query_result"
  persisted :: "string \<Rightarrow> 'e collection"
  default_db_path :: string

section \<open>Indexing one file\<close>

datatype result = Skipped string | Indexed nat string

text \<open>
  \<open>file_hash\<close> opens the file and digests its bytes; the \<open>open\<close> or the read can
  fail, and nothing in \<open>file_hash\<close> or around its call catches that.
\<close>

definition file_hash :: "('e, 'd) env \<Rightarrow> path \<Rightarrow> string outcome" where
  "file_hash env p =
     (case fv_digest (fs env (absolute (cwd env) p)) of
        Digest h \<Rightarrow> Returns h
      | Digest_io_error \<Rightarrow> Raises OSError)"

text \<open>
  The records of one \<open>collection.add\<close>: ids \<open>prefix::i\<close>, the embeddings of the
  chunks, the chunks, and the metadata dictionaries.
\<close>

definition new_records ::
  "string \<Rightarrow> string \<Rightarrow> string \<Rightarrow> (pystr \<Rightarrow> 'e) \<Rightarrow> pystr list \<Rightarrow> 'e chunk list" where
  "new_records doc_id_prefix filename current_hash emb chunks =
     map (\<lambda>(i, c).
            \<lparr>c_id = doc_id_prefix @ ''::'' @ str_nat i,
             c_embedding = emb c,
             c_document = c,
             c_metadata = \<lparr>m_path = doc_id_prefix, m_filename = filename,
                            m_chunk_idx = i, m_hash = current_hash\<rparr>\<rparr>)
         (enumerate 0 chunks)"

text \<open>The second half of \<open>index_file\<close>: chunk and embed, then store.\<close>

definition chunk_and_store ::
  "('e, 'd) env \<Rightarrow> 'e world \<Rightarrow> path \<Rightarrow> string \<Rightarrow> string \<Rightarrow> pystr \<Rightarrow>
     result outcome \<times> 'e world" where
  "chunk_and_store env w file_path doc_id_prefix current_hash txt =
     (case chunk_text txt 500 50 of
        None \<Rightarrow> (Diverges, w)
      | Some chunks \<Rightarrow>
          if chunks = [] then (Returns (Skipped ''empty''), w)
          else
            let w1 = called (Call_encode chunks) w;
                recs = new_records doc_id_prefix (name file_path) current_hash (embed env) chunks;
                w2 = called (Call_add (map c_id recs)) w1
            in case coll_add (policy env) (store w2) recs of
                 Inl e \<Rightarrow> (Raises e, w2)
               | Inr c \<Rightarrow>
                   (Returns (Indexed (length chunks) (path_str file_path)), w2\<lparr>store := c\<rparr>))"

definition index_file ::
  "('e, 'd) env \<Rightarrow> 'e world \<Rightarrow> path \<Rightarrow> bool \<Rightarrow> result outcome \<times> 'e world" where
  "index_file env w file_path force =
     (let view = fs env (absolute (cwd env) file_path) in
      if \<not> fv_is_file view then (Returns (Skipped ''not a file''), w)
      else
        case fv_text view of
          Undecodable \<Rightarrow> (Returns (Skipped ''not text''), w)
        | Text_io_error \<Rightarrow> (Returns (Skipped ''not text''), w)
        | Text txt \<Rightarrow>
            (case file_hash env file_path of
               Raises e \<Rightarrow> (Raises e, w)
             | Diverges \<Rightarrow> (Diverges, w)
             | Returns current_hash \<Rightarrow>
                 let doc_id_prefix = path_str (absolute (cwd env) file_path);
                     existing = coll_get (store w) doc_id_prefix;
                     w1 = called (Call_get doc_id_prefix) w
                 in if existing \<noteq> [] \<and> \<not> force then
                      if m_hash (c_metadata (hd existing)) = current_hash
                      then (Returns (Skipped ''unchanged''), w1)
                      else
                        chunk_and_store env
                          (called (Call_delete (map c_id existing))
                             (w1\<lparr>store := coll_delete (store w1) (map c_id existing)\<rparr>))
                          file_path doc_id_prefix current_hash txt
                    else chunk_and_store env w1 file_path doc_id_prefix current_hash txt))"

section \<open>Indexing a directory\<close>

record dir_results =
  indexed :: nat
  skipped :: nat
  files :: "result list"

definition default_extensions :: "string list" where
  "default_extensions =
     [''.md'', ''.txt'', ''.py'', ''.go'', ''.js'', ''.ts'', ''.json'', ''.yaml'', ''.yml'']"

text \<open>
  The test of the loop body: an entry for which it holds is handed to \<open>index_file\<close>,
  every other entry is passed over.
\<close>

definition is_candidate :: "string list \<Rightarrow> path \<times> bool \<Rightarrow> bool" where
  "is_candidate extensions e =
     (case e of (p, isf) \<Rightarrow>
        if isf \<and> lower (suffix p) \<in> set extensions then
          if list_ex (\<lambda>part. startswith part ''.'') p then False
          else if ''node_modules'' \<in> set p \<or> ''__pycache__'' \<in> set p then False
          else True
        else False)"

fun index_directory_loop ::
  "('e, 'd) env \<Rightarrow> bool \<Rightarrow> string list \<Rightarrow> (path \<times> bool) list \<Rightarrow> 'e world \<Rightarrow> dir_results \<Rightarrow>
     dir_results outcome \<times> 'e world" where
  "index_directory_loop env force extensions [] w results = (Returns results, w)"
| "index_directory_loop env force extensions (e # es) w results =
     (if is_candidate extensions e then
        (case index_file env w (fst e) force of
           (Returns r, w') \<Rightarrow>
             index_directory_loop env force extensions es w'
               ((case r of
                   Indexed n p \<Rightarrow> results\<lparr>indexed := indexed results + 1\<rparr>
                 | Skipped reason \<Rightarrow> results\<lparr>skipped := skipped results + 1\<rparr>)
                \<lparr>files := files results @ [r]\<rparr>)
         | (Raises x, w') \<Rightarrow> (Raises x, w')
         | (Diverges, w') \<Rightarrow> (Diverges, w'))
      else index_directory_loop env force extensions es w results)"

definition index_directory ::
  "('e, 'd) env \<Rightarrow> 'e world \<Rightarrow> path \<Rightarrow> string list option \<Rightarrow> bool \<Rightarrow>
     dir_results outcome \<times> 'e world" where
  "index_directory env w dir_path extensions force =
     index_directory_loop env force
       (case extensions of None \<Rightarrow> default_extensions | Some exts \<Rightarrow> exts)
       (rglob dir_path (listing env dir_path)) w
       \<lparr>indexed = 0, skipped = 0, files = []\<rparr>"

section \<open>Search\<close>

record 'd hit =
  h_id :: string
  h_score :: 'd
  h_text :: pystr
  h_path :: string
  h_filename :: string
  h_chunk_idx :: nat

text \<open>\<open>xs[i]\<close> for \<open>i\<close> from a \<open>range\<close>: out of range raises \<open>IndexError\<close>.\<close>

definition item :: "'a list \<Rightarrow> nat \<Rightarrow> 'a outcome" where
  "item xs i = (if i < length xs then Returns (xs ! i) else Raises IndexError)"

fun bind :: "'a outcome \<Rightarrow> ('a \<Rightarrow> 'b outcome) \<Rightarrow> 'b outcome" where
  "bind (Returns x) f = f x"
| "bind (Raises e) f = Raises e"
| "bind Diverges f = Diverges"

definition format_hit :: "('d::{one,minus}) query_result \<Rightarrow> nat \<Rightarrow> 'd hit outcome" where
  "format_hit results i =
     bind (item (q_ids results) 0) (\<lambda>ids0. bind (item ids0 i) (\<lambda>rid.
     bind (item (q_distances results) 0) (\<lambda>ds0. bind (item ds0 i) (\<lambda>d.
     bind (item (q_documents results) 0) (\<lambda>docs0. bind (item docs0 i) (\<lambda>doc.
     bind (item (q_metadatas results) 0) (\<lambda>ms0. bind (item ms0 i) (\<lambda>m.
       Returns \<lparr>h_id = rid, h_score = 1 - d, h_text = doc, h_path = m_path m,
                h_filename = m_filename m, h_chunk_idx = m_chunk_idx m\<rparr>))))))))"

fun format_loop ::
  "('d::{one,minus}) query_result \<Rightarrow> nat list \<Rightarrow> 'd hit list \<Rightarrow> 'd hit list outcome" where
  "format_loop results [] formatted = Returns formatted"
| "format_loop results (i # rest) formatted =
     bind (format_hit results i) (\<lambda>h. format_loop results rest (formatted @ [h]))"

definition search ::
  "('e, 'd::{one,minus}) env \<Rightarrow> 'e world \<Rightarrow> pystr \<Rightarrow> int \<Rightarrow> 'd hit list outcome \<times> 'e world" where
  "search env w query limit =
     (let w1 = called (Call_encode [query]) w;
          query_embedding = [embed env query];
          results = nearest env (store w1) query_embedding limit;
          w2 = called (Call_query limit) w1
      in if q_ids results \<noteq> [] \<and> hd (q_ids results) \<noteq> []
         then (format_loop results [0..<length (hd (q_ids results))] [], w2)
         else (Returns [], w2))"

section \<open>The command surface\<close>

text \<open>
  A request is a dictionary; a key that may be absent is an option. The globals
  \<open>_collection\<close> (\<open>None\<close> until \<open>init\<close>) and the calls made so far are the state of
  the process; a collection object is truthy, so \<open>not _collection\<close> holds exactly
  while it is \<open>None\<close>. \<open>_embedder\<close> is set together with \<open>_collection\<close>. The
  \<open>path\<close> of a request stands for the \<open>Path\<close> that is built from it, and
  \<open>get_collection\<close> keeps the collection it opened first.
\<close>

record command =
  cmd_cmd :: "string option"
  cmd_db_path :: "string option"
  cmd_path :: "path option"
  cmd_extensions :: "string list option"
  cmd_force :: "bool option"
  cmd_query :: "pystr option"
  cmd_limit :: "int option"

datatype 'd response =
    Resp_init string nat
  | Resp_error string
  | Resp_exception exn
  | Resp_index_file result
  | Resp_index_dir dir_results
  | Resp_search "'d hit list"
  | Resp_count nat
  | Resp_ok
  | Resp_bye

record 'e process =
  p_collection :: "'e collection option"
  p_calls :: "call list"

definition get_or :: "'a option \<Rightarrow> 'a \<Rightarrow> 'a" where
  "get_or v dflt = (case v of None \<Rightarrow> dflt | Some x \<Rightarrow> x)"

definition answer ::
  "('a \<Rightarrow> 'd response) \<Rightarrow> 'a outcome \<times> 'e world \<Rightarrow> 'd response outcome \<times> 'e process" where
  "answer wrap rw =
     (case rw of (r, w) \<Rightarrow>
        (bind r (\<lambda>x. Returns (wrap x)), \<lparr>p_collection = Some (store w), p_calls = calls w\<rparr>))"

definition handle_command ::
  "('e, 'd::{one,minus}) env \<Rightarrow> 'e process \<Rightarrow> command \<Rightarrow> 'd response outcome \<times> 'e process" where
  "handle_command env st cmd =
     (let action = get_or (cmd_cmd cmd) [] in
      if action = ''init'' then
        let db_path = get_or (cmd_db_path cmd) (default_db_path env);
            c = (case p_collection st of None \<Rightarrow> persisted env db_path | Some c \<Rightarrow> c)
        in (Returns (Resp_init db_path (length c)),
            \<lparr>p_collection = Some c, p_calls = p_calls st @ [Call_count]\<rparr>)
      else if action = ''index_file'' then
        (case p_collection st of
           None \<Rightarrow> (Returns (Resp_error ''not initialized''), st)
         | Some c \<Rightarrow>
             (case cmd_path cmd of
                None \<Rightarrow> (Raises (KeyError ''path''), st)
              | Some p \<Rightarrow>
                  answer Resp_index_file
                    (index_file env \<lparr>store = c, calls = p_calls st\<rparr> p
                       (get_or (cmd_force cmd) False))))
      else if action = ''index_dir'' then
        (case p_collection st of
           None \<Rightarrow> (Returns (Resp_error ''not initialized''), st)
         | Some c \<Rightarrow>
             (case cmd_path cmd of
                None \<Rightarrow> (Raises (KeyError ''path''), st)
              | Some p \<Rightarrow>
                  answer Resp_index_dir
                    (index_directory env \<lparr>store = c, calls = p_calls st\<rparr> p
                       (cmd_extensions cmd) (get_or (cmd_force cmd) False))))
      else if action = ''search'' then
        (case p_collection st of
           None \<Rightarrow> (Returns (Resp_error ''not initialized''), st)
         | Some c \<Rightarrow>
             (case cmd_query cmd of
                None \<Rightarrow> (Raises (KeyError ''query''), st)
              | Some q \<Rightarrow>
                  answer Resp_search
                    (search env \<lparr>store = c, calls = p_calls st\<rparr> q
                       (get_or (cmd_limit cmd) 5))))
      else if action = ''stats'' then
        (case p_collection st of
           None \<Rightarrow> (Returns (Resp_error ''not initialized''), st)
         | Some c \<Rightarrow> (Returns (Resp_count (length c)), st\<lparr>p_calls := p_calls st @ [Call_count]\<rparr>))
      else if action = ''clear'' then
        (case p_collection st of
           None \<Rightarrow> (Returns Resp_ok, st)
         | Some c \<Rightarrow>
             let all_ids = map c_id c;
                 st1 = st\<lparr>p_calls := p_calls st @ [Call_get_all]\<rparr>
             in if all_ids \<noteq> []
                then (Returns Resp_ok,
                      \<lparr>p_collection = Some (coll_delete c all_ids),
                       p_calls = p_calls st1 @ [Call_delete all_ids]\<rparr>)
                else (Returns Resp_ok, st1))
      else if action = ''quit'' then (Returns Resp_bye, st)
      else (Returns (Resp_error (''unknown command: '' @ action)), st))"

text \<open>
  One turn of \<open>main\<close> for a request that arrived: an exception of \<open>handle_command\<close>
  becomes the reply \<open>{"status": "error", "error": str(e)}\<close>.
\<close>

definition main_step ::
  "('e, 'd::{one,minus}) env \<Rightarrow> 'e process \<Rightarrow> command \<Rightarrow> 'd response outcome \<times> 'e process" where
  "main_step env st cmd =
     (case handle_command env st cmd of
        (Raises e, st') \<Rightarrow> (Returns (Resp_exception e), st')
      | (r, st') \<Rightarrow> (r, st'))"

section \<open>Invariants of the store and sample surroundings\<close>

text \<open>
  Every record that \<open>index_file\<close> writes has the id \<open>path::chunk_idx\<close> of its own
  metadata.
\<close>

definition store_wf :: "'e collection \<Rightarrow> bool" where
  "store_wf c =
     list_all (\<lambda>r. c_id r = m_path (c_metadata r) @ ''::'' @ str_nat (m_chunk_idx (c_metadata r))) c"

text \<open>All records of one path carry one hash.\<close>

definition hash_consistent :: "'e collection \<Rightarrow> bool" where
  "hash_consistent c =
     list_all (\<lambda>r. list_all (\<lambda>r'. m_path (c_metadata r') = m_path (c_metadata r) \<longrightarrow>
                                   m_hash (c_metadata r') = m_hash (c_metadata r)) c) c"

text \<open>
  The view of a file for which \<open>index_file\<close> reaches \<open>file_hash\<close> and the read
  there fails.
\<close>

definition fingerprint_fails :: "file_view \<Rightarrow> bool" where
  "fingerprint_fails v \<longleftrightarrow>
     fv_is_file v \<and> (case fv_text v of Text t \<Rightarrow> True | Undecodable \<Rightarrow> False | Text_io_error \<Rightarrow> False) \<and>
     fv_digest v = Digest_io_error"

text \<open>
  Surroundings for the examples: the working directory \<open>/work\<close>, an embedder that
  gives the length of the text, and a store query that answers with the first records,
  the record at position \<open>i\<close> at distance \<open>i\<close>.
\<close>

definition sample_env ::
  "add_policy \<Rightarrow> (path \<Rightarrow> file_view) \<Rightarrow> (path \<Rightarrow> tree list) \<Rightarrow> (nat, int) env" where
  "sample_env pol views dirs =
     \<lparr>cwd = [''/'', ''work''], fs = views, listing = dirs, embed = length, policy = pol,
      nearest = (\<lambda>c q k.
         \<lparr>q_ids = [map c_id (take (nat k) c)],
          q_distances = [map int [0..<length (take (nat k) c)]],
          q_documents = [map c_document (take (nat k) c)],
          q_metadatas = [map c_metadata (take (nat k) c)]\<rparr>),
      persisted = (\<lambda>p. []),
      default_db_path = ''/home/user/.jb-recall/db''\<rparr>"

definition sample_chunk :: "string \<Rightarrow> string \<Rightarrow> nat \<Rightarrow> pystr \<Rightarrow> string \<Rightarrow> nat chunk" where
  "sample_chunk p fname i doc h =
     \<lparr>c_id = p @ ''::'' @ str_nat i, c_embedding = length doc, c_document = doc,
      c_metadata = \<lparr>m_path = p, m_filename = fname, m_chunk_idx = i, m_hash = h\<rparr>\<rparr>"

definition no_file :: file_view where
  "no_file = \<lparr>fv_is_file = False, fv_text = Text_io_error, fv_digest = Digest_io_error\<rparr>"

definition text_file :: "pystr \<Rightarrow> string \<Rightarrow> file_view" where
  "text_file txt h = \<lparr>fv_is_file = True, fv_text = Text txt, fv_digest = Digest h\<rparr>"

definition empty_world :: "nat world" where
  "empty_world = \<lparr>store = [], calls = []\<rparr>"

text \<open>
  The state after \<open>/work/a.txt\<close> has been indexed into the empty store, for a file of
  451 letters \<open>a\<close> with digest \<open>h1\<close> (two chunks), and for a file holding the one
  letter \<open>a\<close> with digest \<open>h1\<close> (one chunk).
\<close>

definition world_two_chunks :: "nat world" where
  "world_two_chunks =
     \<lparr>store = [sample_chunk ''/work/a.txt'' ''a.txt'' 0 (replicate 451 97) ''h1'',
               sample_chunk ''/work/a.txt'' ''a.txt'' 1 [97] ''h1''],
      calls = [Call_get ''/work/a.txt'', Call_encode [replicate 451 97, [97]],
               Call_add [''/work/a.txt::0'', ''/work/a.txt::1'']]\<rparr>"

definition world_one_chunk :: "nat world" where
  "world_one_chunk =
     \<lparr>store = [sample_chunk ''/work/a.txt'' ''a.txt'' 0 [97] ''h1''],
      calls = [Call_get ''/work/a.txt'', Call_encode [[97]], Call_add [''/work/a.txt::0'']]\<rparr>"

definition no_command :: command where
  "no_command =
     \<lparr>cmd_cmd = None, cmd_db_path = None, cmd_path = None, cmd_extensions = None,
      cmd_force = None, cmd_query = None, cmd_limit = None\<rparr>"

section \<open>The chunker: termination and windows\<close>

text \<open>
  When the step \<open>chunk_size - overlap\<close> is not positive and the loop condition holds
  once, it holds for ever: the loop returns nothing.
\<close>

lemma chunk_loop_returns_only_if:
  assumes "chunk_loop txt chunk_size overlap start chunks = Some y"
  shows "\<not> (chunk_size \<le> overlap \<and> start < int (length txt))"
proof (rule chunk_loop.raw_induct[where P = "\<lambda>t sz ov st cs y. \<not> (sz \<le> ov \<and> st < int (length t))", OF _ assms])
  fix f t sz ov st and cs y :: "pystr list"
  assume ih: "\<And>t sz ov st cs y. f t sz ov st cs = Some y \<Longrightarrow> \<not> (sz \<le> ov \<and> st < int (length t))"
    and eq: "(if st < int (length t)
        then let end_pos = st + sz; chunk = py_slice t st end_pos
             in f t sz ov (end_pos - ov) (if strip chunk \<noteq> [] then cs @ [chunk] else cs)
        else Some cs) = Some y"
  show "\<not> (sz \<le> ov \<and> st < int (length t))"
  proof
    assume a: "sz \<le> ov \<and> st < int (length t)"
    with eq obtain c' where "f t sz ov (st + sz - ov) c' = Some y"
      by (auto simp: Let_def)
    from ih[OF this] a show False by auto
  qed
qed

lemma chunk_loop_windows:
  fixes step :: int
  assumes step: "step = chunk_size - overlap" "0 < step"
    and m: "\<And>k. k < m \<longleftrightarrow> int k * step < int (length txt)"
  shows "j \<le> m \<Longrightarrow>
    chunk_loop txt chunk_size overlap (int j * step) chunks =
      Some (chunks @ filter (\<lambda>w. strip w \<noteq> [])
        (map (\<lambda>k. py_slice txt (int k * step) (int k * step + chunk_size)) [j..<m]))"
proof (induction "m - j" arbitrary: j chunks)
  case 0
  then have "j = m" by simp
  with m[of m] have "\<not> int j * step < int (length txt)" by simp
  then show ?case using \<open>j = m\<close> by (subst chunk_loop.simps) simp
next
  case (Suc d)
  then have lt: "j < m" and d: "d = m - Suc j" and le: "Suc j \<le> m" by simp_all
  from lt m have cond: "int j * step < int (length txt)" by simp
  have nxt: "int j * step + chunk_size - overlap = int (Suc j) * step"
    using step by (simp add: algebra_simps)
  have up: "[j..<m] = j # [Suc j..<m]" using lt by (simp add: upt_conv_Cons)
  show ?case
    apply (subst chunk_loop.simps)
    apply (simp only: cond if_True Let_def nxt Suc.hyps(1)[OF d le] up)
    apply simp
    done
qed

lemma window_count_exists:
  fixes step :: int
  assumes "0 < step"
  shows "\<exists>m. \<forall>k. k < m \<longleftrightarrow> int k * step < int n"
proof -
  define m where "m = (LEAST k. \<not> int k * step < int n)"
  have ex: "\<not> int n * step < int n"
    using assms by (simp add: not_less mult_le_cancel_left1)
  have a: "\<not> int m * step < int n" unfolding m_def by (rule LeastI[of _ n]) (rule ex)
  have b: "\<And>k. k < m \<Longrightarrow> int k * step < int n"
    unfolding m_def using not_less_Least by blast
  have c: "\<And>k. int k * step < int n \<Longrightarrow> k < m"
  proof (rule ccontr)
    fix k assume k: "int k * step < int n" and "\<not> k < m"
    then have "m \<le> k" by simp
    then have "int m * step \<le> int k * step" using assms by (simp add: mult_right_mono)
    with k a show False by linarith
  qed
  from b c show ?thesis by blast
qed

lemma chunk_text_windows_upto:
  assumes "overlap < chunk_size"
    and "\<And>k. k < m \<longleftrightarrow> int k * (chunk_size - overlap) < int (length txt)"
  shows "chunk_text txt chunk_size overlap =
      Some (filter (\<lambda>w. strip w \<noteq> [])
        (map (\<lambda>k. py_slice txt (int k * (chunk_size - overlap))
                     (int k * (chunk_size - overlap) + chunk_size)) [0..<m]))"
  using chunk_loop_windows[of "chunk_size - overlap" chunk_size overlap m "txt" 0 "[]"] assms
  by (simp add: chunk_text_def)

lemma strip_eq_Nil_iff: "strip s = [] \<longleftrightarrow> (\<forall>c\<in>set s. is_space c)"
proof
  assume "strip s = []"
  then have all: "\<forall>x\<in>set (dropWhile is_space s). is_space x"
    by (simp add: strip_def)
  have "dropWhile is_space s = []"
  proof (rule ccontr)
    assume ne: "dropWhile is_space s \<noteq> []"
    then have "\<not> is_space (hd (dropWhile is_space s))" by (rule hd_dropWhile)
    moreover have "hd (dropWhile is_space s) \<in> set (dropWhile is_space s)"
      using ne by (rule hd_in_set)
    ultimately show False using all by blast
  qed
  then show "\<forall>c\<in>set s. is_space c" by simp
next
  assume "\<forall>c\<in>set s. is_space c"
  then have "dropWhile is_space s = []" by simp
  then show "strip s = []" by (simp add: strip_def del: dropWhile_eq_Nil_conv)
qed

lemma chunk_text_total:
  "overlap < chunk_size \<Longrightarrow> \<exists>chunks. chunk_text txt chunk_size overlap = Some chunks"
proof -
  assume lt: "overlap < chunk_size"
  then obtain m where "\<forall>k. k < m \<longleftrightarrow> int k * (chunk_size - overlap) < int (length txt)"
    using window_count_exists[of "chunk_size - overlap" "length txt"] by auto
  with lt chunk_text_windows_upto[of overlap chunk_size m "txt"] show ?thesis by simp
qed

text \<open>Short texts, evaluated.\<close>

lemma chunk_text_one_window:
  assumes "content \<noteq> []" and "length content \<le> 450"
  shows "chunk_text content 500 50 = Some (if strip content \<noteq> [] then [content] else [])"
proof -
  have m: "\<And>k. k < (1::nat) \<longleftrightarrow> int k * (500 - 50) < int (length content)"
    using assms by auto
  show ?thesis
    using chunk_text_windows_upto[of 50 500 1 "content", OF _ m] assms
    by (simp add: py_slice_def)
qed

lemma chunk_text_two_windows:
  assumes "450 < length content" and "length content \<le> 500"
  shows "chunk_text content 500 50 =
           Some (filter (\<lambda>w. strip w \<noteq> []) [content, drop 450 content])"
proof -
  have m: "\<And>k. k < (2::nat) \<longleftrightarrow> int k * (500 - 50) < int (length content)"
    using assms by auto
  have up: "[0..<2] = [0, 1]" by (simp add: upt_rec)
  show ?thesis
    using chunk_text_windows_upto[of 50 500 2 "content", OF _ m] assms
    by (simp add: py_slice_def up)
qed

lemma strip_replicate: "0 < n \<Longrightarrow> \<not> is_space c \<Longrightarrow> strip (replicate n c) \<noteq> []"
  by (auto simp: strip_eq_Nil_iff)

lemmas eval_defs =
  index_file_def file_hash_def chunk_and_store_def new_records_def coll_get_def coll_delete_def coll_add_def
  called_def Let_def absolute_def is_absolute_def path_str_def name_def str_nat.simps
  digit_char_def sample_env_def sample_chunk_def text_file_def empty_world_def


text \<open>
  C2. The claim is that \<open>chunk_text\<close> ends on every input, failing fast when
  \<open>overlap \<ge> size\<close>. The loop has no such check: on the one-character text \<open>a\<close>
  with \<open>chunk_size = 1\<close> and \<open>overlap = 1\<close> the start position stays at 0 and the
  call never returns.
\<close>

theorem chunk_text_no_guard_counterexample:
  "chunk_text [97] 1 1 = None"
proof (cases "chunk_text [97] 1 1")
  case (Some y)
  from chunk_loop_returns_only_if[OF Some[unfolded chunk_text_def]]
  show ?thesis by simp
qed simp

text \<open>
  C2, as the code has it: \<open>chunk_text\<close> returns exactly when \<open>overlap < chunk_size\<close>
  or the text is empty; for \<open>overlap \<ge> chunk_size\<close> and a non-empty text it does not
  return, and raises nothing.
\<close>

theorem chunk_text_returns_iff:
  "(\<exists>chunks. chunk_text txt chunk_size overlap = Some chunks) \<longleftrightarrow>
   (overlap < chunk_size \<or> txt = [])"
proof (cases "overlap < chunk_size")
  case True
  with chunk_text_total[of overlap chunk_size "txt"] show ?thesis by simp
next
  case False
  show ?thesis
  proof (cases "txt = []")
    case True
    then show ?thesis by (simp add: chunk_text_def chunk_loop.simps)
  next
    case ne: False
    have "chunk_text txt chunk_size overlap = None"
    proof (cases "chunk_text txt chunk_size overlap")
      case (Some y)
      from chunk_loop_returns_only_if[OF Some[unfolded chunk_text_def]] False ne
      show ?thesis by simp
    qed simp
    with False ne show ?thesis by simp
  qed
qed

theorem chunk_text_returns_iff_witness:
  "(\<exists>chunks. chunk_text [97, 98, 99] 2 1 = Some chunks) \<and>
   (\<exists>chunks. chunk_text [] 1 1 = Some chunks) \<and>
   \<not> (\<exists>chunks. chunk_text [97, 98, 99] 2 2 = Some chunks)"
  using chunk_text_returns_iff[of "[97, 98, 99]" 2 1] chunk_text_returns_iff[of "[]" 1 1]
    chunk_text_returns_iff[of "[97, 98, 99]" 2 2]
  by simp

text \<open>
  C7. The claim gives three chunks for every non-blank text of 1000 characters. A window
  that holds only white space is dropped, also when the text as a whole is not blank:
  900 letters followed by 100 spaces are a non-blank text of 1000 characters, and the
  result has two chunks, the windows that start at 0 and at 450.
\<close>

theorem chunk_text_blank_tail_counterexample:
  "length (replicate 900 (97::nat) @ replicate 100 32) = 1000 \<and>
   strip (replicate 900 97 @ replicate 100 32) \<noteq> [] \<and>
   chunk_text (replicate 900 97 @ replicate 100 32) 500 50 =
     Some [replicate 500 97, replicate 450 97 @ replicate 50 32]"
proof -
  let ?t = "replicate 900 (97::nat) @ replicate 100 32"
  have len: "length ?t = 1000" by simp
  have m: "\<And>k. k < (3::nat) \<longleftrightarrow> int k * (500 - 50) < int (length ?t)"
    by auto
  have up: "[0..<3] = [0, 1, 2]" by (simp add: upt_rec)
  have w0: "py_slice ?t 0 500 = replicate 500 97"
    by (simp add: py_slice_def)
  have w1: "py_slice ?t 450 950 = replicate 450 97 @ replicate 50 32"
    by (simp add: py_slice_def)
  have w2: "py_slice ?t 900 1400 = replicate 100 32"
    by (simp add: py_slice_def)
  have s0: "strip (replicate 500 (97::nat)) \<noteq> []"
    by (simp add: strip_eq_Nil_iff is_space_def)
  have s1: "strip (replicate 450 (97::nat) @ replicate 50 32) \<noteq> []"
    by (simp add: strip_eq_Nil_iff is_space_def)
  have s2: "strip (replicate 100 (32::nat)) = []"
    by (simp add: strip_eq_Nil_iff is_space_def)
  have st: "strip ?t \<noteq> []"
    by (simp add: strip_eq_Nil_iff is_space_def)
  have "chunk_text ?t 500 50 = Some [replicate 500 97, replicate 450 97 @ replicate 50 32]"
    using chunk_text_windows_upto[of 50 500 3 "?t", OF _ m]
    by (simp add: up w0 w1 w2 s0 s1 s2 del: replicate_append_same)
  with len st show ?thesis by blast
qed

text \<open>
  C7, as the code has it. With \<open>overlap < chunk_size\<close> the result is the list of the
  windows \<open>text[start : start + chunk_size]\<close> for the starts
  \<open>k * (chunk_size - overlap)\<close> below the length of the text, in order, without the
  windows that are empty after trimming. With the defaults 500 and 50, a text of 1000
  characters gives those of the three windows starting at 0, 450 and 900 that are not
  blank: all three when each of them holds a character that is not white space, as in a
  text without white space; and a text of 10 characters that is not blank gives the text
  itself as the only chunk.
\<close>

theorem chunk_text_windows:
  "(overlap < chunk_size \<longrightarrow>
      (\<exists>m. (\<forall>k. k < m \<longleftrightarrow> int k * (chunk_size - overlap) < int (length txt)) \<and>
         chunk_text txt chunk_size overlap =
           Some (filter (\<lambda>w. strip w \<noteq> [])
             (map (\<lambda>k. py_slice txt (int k * (chunk_size - overlap))
                          (int k * (chunk_size - overlap) + chunk_size)) [0..<m])))) \<and>
   (length txt = 1000 \<longrightarrow>
      chunk_text txt 500 50 =
        Some (filter (\<lambda>w. strip w \<noteq> []) [take 500 txt, take 500 (drop 450 txt), drop 900 txt])) \<and>
   (length txt = 1000 \<and> strip (take 500 txt) \<noteq> [] \<and> strip (take 500 (drop 450 txt)) \<noteq> [] \<and>
    strip (drop 900 txt) \<noteq> [] \<longrightarrow>
      chunk_text txt 500 50 = Some [take 500 txt, take 500 (drop 450 txt), drop 900 txt]) \<and>
   (length txt = 1000 \<and> (\<forall>c\<in>set txt. \<not> is_space c) \<longrightarrow>
      chunk_text txt 500 50 = Some [take 500 txt, take 500 (drop 450 txt), drop 900 txt]) \<and>
   (length txt = 10 \<and> strip txt \<noteq> [] \<longrightarrow> chunk_text txt 500 50 = Some [txt])"
proof -
  have general: "\<exists>m. (\<forall>k. k < m \<longleftrightarrow> int k * (chunk_size - overlap) < int (length txt)) \<and>
         chunk_text txt chunk_size overlap =
           Some (filter (\<lambda>w. strip w \<noteq> [])
             (map (\<lambda>k. py_slice txt (int k * (chunk_size - overlap))
                          (int k * (chunk_size - overlap) + chunk_size)) [0..<m]))"
    if lt: "overlap < chunk_size"
  proof -
    from lt obtain m where
      m: "\<forall>k. k < m \<longleftrightarrow> int k * (chunk_size - overlap) < int (length txt)"
      using window_count_exists[of "chunk_size - overlap" "length txt"] by auto
    with lt chunk_text_windows_upto[of overlap chunk_size m "txt"] show ?thesis by blast
  qed
  have exact: "chunk_text txt 500 50 =
        Some (filter (\<lambda>w. strip w \<noteq> []) [take 500 txt, take 500 (drop 450 txt), drop 900 txt])"
    if len: "length txt = 1000"
  proof -
    have m: "\<And>k. k < (3::nat) \<longleftrightarrow> int k * (500 - 50) < int (length txt)"
      using len by auto
    have up: "[0..<3] = [0, 1, 2]" by (simp add: upt_rec)
    have w: "py_slice txt 0 500 = take 500 txt" "py_slice txt 450 950 = take 500 (drop 450 txt)"
      "py_slice txt 900 1400 = drop 900 txt"
      by (simp_all add: py_slice_def len)
    show ?thesis
      using chunk_text_windows_upto[of 50 500 3 "txt", OF _ m]
      by (simp add: up w)
  qed
  have three: "chunk_text txt 500 50 = Some [take 500 txt, take 500 (drop 450 txt), drop 900 txt]"
    if "length txt = 1000" "strip (take 500 txt) \<noteq> []" "strip (take 500 (drop 450 txt)) \<noteq> []"
      "strip (drop 900 txt) \<noteq> []"
    using exact[OF that(1)] that(2-4) by simp
  have nospace: "chunk_text txt 500 50 = Some [take 500 txt, take 500 (drop 450 txt), drop 900 txt]"
    if len: "length txt = 1000" and nb: "\<forall>c\<in>set txt. \<not> is_space c"
  proof -
    have nbw: "\<And>w. w \<noteq> [] \<Longrightarrow> set w \<subseteq> set txt \<Longrightarrow> strip w \<noteq> []"
      using nb by (auto simp: strip_eq_Nil_iff neq_Nil_conv)
    have w0: "strip (take 500 txt) \<noteq> []" using len by (intro nbw) (auto dest: in_set_takeD)
    have w1: "strip (take 500 (drop 450 txt)) \<noteq> []"
      using len by (intro nbw) (auto dest: in_set_takeD in_set_dropD)
    have w2: "strip (drop 900 txt) \<noteq> []"
      using len by (intro nbw) (auto dest: in_set_dropD)
    from three[OF len w0 w1 w2] show ?thesis .
  qed
  have ten: "chunk_text txt 500 50 = Some [txt]" if len: "length txt = 10" and nb: "strip txt \<noteq> []"
  proof -
    have m: "\<And>k. k < (1::nat) \<longleftrightarrow> int k * (500 - 50) < int (length txt)"
      using len by auto
    show ?thesis
      using chunk_text_windows_upto[of 50 500 1 "txt", OF _ m] nb
      by (simp add: py_slice_def len)
  qed
  from general exact three nospace ten show ?thesis by blast
qed

theorem chunk_text_windows_witness:
  "(\<exists>m. (\<forall>k. k < m \<longleftrightarrow> int k * (3 - 1) < int (length [97, 98, 32, 99, 100, 101 :: nat])) \<and>
      chunk_text [97, 98, 32, 99, 100, 101] 3 1 =
        Some (filter (\<lambda>w. strip w \<noteq> [])
          (map (\<lambda>k. py_slice [97, 98, 32, 99, 100, 101] (int k * (3 - 1)) (int k * (3 - 1) + 3))
             [0..<m]))) \<and>
   chunk_text (replicate 1000 97) 500 50 =
     Some [replicate 500 97, replicate 500 97, replicate 100 97] \<and>
   chunk_text (replicate 900 97 @ replicate 100 32) 500 50 =
     Some (filter (\<lambda>w. strip w \<noteq> [])
       [replicate 500 97, replicate 450 97 @ replicate 50 32, replicate 100 32]) \<and>
   chunk_text [104, 101, 108, 108, 111, 32, 116, 101, 120, 116] 500 50 =
     Some [[104, 101, 108, 108, 111, 32, 116, 101, 120, 116]]"
proof -
  have a: "\<exists>m. (\<forall>k. k < m \<longleftrightarrow> int k * (3 - 1) < int (length [97, 98, 32, 99, 100, 101 :: nat])) \<and>
      chunk_text [97, 98, 32, 99, 100, 101] 3 1 =
        Some (filter (\<lambda>w. strip w \<noteq> [])
          (map (\<lambda>k. py_slice [97, 98, 32, 99, 100, 101] (int k * (3 - 1)) (int k * (3 - 1) + 3))
             [0..<m]))"
    using chunk_text_windows[of 1 3 "[97, 98, 32, 99, 100, 101]"] by simp
  have b: "chunk_text (replicate 1000 97) 500 50 =
     Some [replicate 500 97, replicate 500 97, replicate 100 97]"
    using chunk_text_windows[of 0 1 "replicate 1000 97"]
    by (simp add: is_space_def strip_eq_Nil_iff)
  have c: "chunk_text (replicate 900 97 @ replicate 100 32) 500 50 =
     Some (filter (\<lambda>w. strip w \<noteq> [])
       [replicate 500 97, replicate 450 97 @ replicate 50 32, replicate 100 32])"
    using chunk_text_windows[of 0 1 "replicate 900 97 @ replicate 100 32"]
    by (simp del: replicate_append_same)
  have d: "chunk_text [104, 101, 108, 108, 111, 32, 116, 101, 120, 116] 500 50 =
     Some [[104, 101, 108, 108, 111, 32, 116, 101, 120, 116]]"
    using chunk_text_windows[of 0 1 "[104, 101, 108, 108, 111, 32, 116, 101, 120, 116]"]
    by (simp add: is_space_def strip_def)
  from a b c d show ?thesis by blast
qed

section \<open>The command surface before initialisation\<close>

text \<open>
  C10. While \<open>_collection\<close> is \<open>None\<close>, \<open>clear\<close> answers \<open>{"status": "ok"}\<close> and
  leaves the state as it is, with no call to the store, whereas \<open>search\<close>,
  \<open>index_file\<close>, \<open>index_dir\<close> and \<open>stats\<close> answer with the error
  \<open>not initialized\<close>.
\<close>

theorem clear_uninitialized:
  "p_collection st = None \<Longrightarrow>
   (cmd_cmd cmd = Some ''clear'' \<longrightarrow> handle_command env st cmd = (Returns Resp_ok, st)) \<and>
   (cmd_cmd cmd \<in> {Some ''search'', Some ''index_file'', Some ''index_dir'', Some ''stats''} \<longrightarrow>
      handle_command env st cmd = (Returns (Resp_error ''not initialized''), st))"
  by (auto simp: handle_command_def get_or_def)

theorem clear_uninitialized_witness:
  "handle_command (sample_env Skip_existing (\<lambda>p. no_file) (\<lambda>p. []))
     \<lparr>p_collection = None, p_calls = []\<rparr> (no_command\<lparr>cmd_cmd := Some ''clear''\<rparr>)
     = (Returns Resp_ok, \<lparr>p_collection = None, p_calls = []\<rparr>) \<and>
   handle_command (sample_env Skip_existing (\<lambda>p. no_file) (\<lambda>p. []))
     \<lparr>p_collection = None, p_calls = []\<rparr> (no_command\<lparr>cmd_cmd := Some ''stats''\<rparr>)
     = (Returns (Resp_error ''not initialized''), \<lparr>p_collection = None, p_calls = []\<rparr>)"
  using clear_uninitialized[of "\<lparr>p_collection = None, p_calls = []\<rparr>"
      "no_command\<lparr>cmd_cmd := Some ''clear''\<rparr>"
      "sample_env Skip_existing (\<lambda>p. no_file) (\<lambda>p. [])"]
    clear_uninitialized[of "\<lparr>p_collection = None, p_calls = []\<rparr>"
      "no_command\<lparr>cmd_cmd := Some ''stats''\<rparr>"
      "sample_env Skip_existing (\<lambda>p. no_file) (\<lambda>p. [])"]
  by (simp add: no_command_def)

section \<open>The directory walk\<close>

lemma index_directory_loop_filter:
  "index_directory_loop env force exts es w res =
   index_directory_loop env force exts (filter (is_candidate exts) es) w res"
  by (induction es arbitrary: w res) (auto split: prod.splits outcome.splits)

lemma concat_single:
  "distinct cs \<Longrightarrow> a \<in> set cs \<Longrightarrow> (\<And>c. c \<in> set cs \<Longrightarrow> c \<noteq> a \<Longrightarrow> g c = []) \<Longrightarrow>
   concat (map g cs) = g a"
proof (induction cs)
  case Nil
  then show ?case by simp
next
  case (Cons c cs)
  show ?case
  proof (cases "c = a")
    case True
    with Cons.prems have "\<And>c'. c' \<in> set cs \<Longrightarrow> g c' = []" by auto
    then have "concat (map g cs) = []" by (induction cs) auto
    with True show ?thesis by simp
  next
    case False
    with Cons show ?thesis by auto
  qed
qed

lemma filter_rglob:
  "filter P (rglob d cs) = concat (map (\<lambda>c. filter P (rglob_node d c)) cs)"
  by (simp add: rglob_def filter_concat comp_def)

lemma name_snoc: "n \<noteq> [] \<Longrightarrow> hd n \<noteq> CHR ''/'' \<Longrightarrow> name (d @ [n]) = n"
  by (cases d) (auto simp: name_def is_absolute_def)

text \<open>
  C9. The claim lets the root be any path without a hidden segment. The walk tests the
  parts of the whole path, those of the root included, for the two directory names as
  well: below \<open>/srv/node_modules/pkg\<close> the same three files give no candidate at all.
\<close>

theorem traversal_root_in_node_modules_counterexample:
  "\<not> list_ex (\<lambda>part. startswith part ''.'') [''/'', ''srv'', ''node_modules'', ''pkg''] \<and>
   filter (is_candidate [''.py'', ''.js''])
     (rglob [''/'', ''srv'', ''node_modules'', ''pkg'']
        [File ''a.py'', Dir ''.hidden'' [File ''b.py''], Dir ''node_modules'' [File ''c.js'']]) = []"
  by (simp add: rglob_def is_candidate_def startswith_def)

text \<open>
  C9, as the code has it. An entry of the walk is handed to \<open>index_file\<close> exactly when
  it is a regular file, its extension in lower case is in the allowed list, no part of
  its path starts with a dot and none is \<open>node_modules\<close> or \<open>__pycache__\<close>, the parts
  of the root included; every other entry is passed over, and \<open>index_directory\<close> is
  the loop over the entries that pass. So when no part of the root starts with a dot and
  none is \<open>node_modules\<close> or \<open>__pycache__\<close>, a directory that holds exactly
  \<open>a.py\<close>, \<open>.hidden/b.py\<close> and \<open>node_modules/c.js\<close>, listed in any order, has
  \<open>a.py\<close> as its only candidate for the extensions \<open>.py\<close> and \<open>.js\<close>.
\<close>

theorem traversal_filtering:
  "(is_candidate exts (p, isf) \<longleftrightarrow>
      isf \<and> lower (suffix p) \<in> set exts \<and> \<not> list_ex (\<lambda>part. startswith part ''.'') p \<and>
      ''node_modules'' \<notin> set p \<and> ''__pycache__'' \<notin> set p) \<and>
   index_directory env w dir_path (Some exts) force =
     index_directory_loop env force exts
       (filter (is_candidate exts) (rglob dir_path (listing env dir_path))) w
       \<lparr>indexed = 0, skipped = 0, files = []\<rparr> \<and>
   (is_candidate exts e \<longrightarrow>
      index_directory_loop env force exts (e # es) w res =
        (case index_file env w (fst e) force of
           (Returns r, w') \<Rightarrow>
             index_directory_loop env force exts es w'
               ((case r of
                   Indexed n p \<Rightarrow> res\<lparr>indexed := indexed res + 1\<rparr>
                 | Skipped reason \<Rightarrow> res\<lparr>skipped := skipped res + 1\<rparr>)
                \<lparr>files := files res @ [r]\<rparr>)
         | (Raises x, w') \<Rightarrow> (Raises x, w')
         | (Diverges, w') \<Rightarrow> (Diverges, w'))) \<and>
   (\<not> is_candidate exts e \<longrightarrow>
      index_directory_loop env force exts (e # es) w res =
        index_directory_loop env force exts es w res) \<and>
   (\<not> list_ex (\<lambda>part. startswith part ''.'') dir_path \<and>
    ''node_modules'' \<notin> set dir_path \<and> ''__pycache__'' \<notin> set dir_path \<and>
    set exts = {''.py'', ''.js''} \<and> distinct children \<and>
    set children =
      {File ''a.py'', Dir ''.hidden'' [File ''b.py''], Dir ''node_modules'' [File ''c.js'']} \<longrightarrow>
      filter (is_candidate exts) (rglob dir_path children) = [(dir_path @ [''a.py''], True)] \<and>
      (listing env dir_path = children \<longrightarrow>
         index_directory env w dir_path (Some exts) force =
           index_directory_loop env force exts [(dir_path @ [''a.py''], True)] w
             \<lparr>indexed = 0, skipped = 0, files = []\<rparr>))"
proof -
  have test: "is_candidate exts (p, isf) \<longleftrightarrow>
      isf \<and> lower (suffix p) \<in> set exts \<and> \<not> list_ex (\<lambda>part. startswith part ''.'') p \<and>
      ''node_modules'' \<notin> set p \<and> ''__pycache__'' \<notin> set p"
    by (auto simp: is_candidate_def)
  have walk: "index_directory env w dir_path (Some exts) force =
     index_directory_loop env force exts
       (filter (is_candidate exts) (rglob dir_path (listing env dir_path))) w
       \<lparr>indexed = 0, skipped = 0, files = []\<rparr>"
    unfolding index_directory_def
    by (subst index_directory_loop_filter) simp
  have scen: "filter (is_candidate exts) (rglob dir_path children) = [(dir_path @ [''a.py''], True)] \<and>
      (listing env dir_path = children \<longrightarrow>
         index_directory env w dir_path (Some exts) force =
           index_directory_loop env force exts [(dir_path @ [''a.py''], True)] w
             \<lparr>indexed = 0, skipped = 0, files = []\<rparr>)"
    if a: "\<not> list_ex (\<lambda>part. startswith part ''.'') dir_path \<and>
    ''node_modules'' \<notin> set dir_path \<and> ''__pycache__'' \<notin> set dir_path \<and>
    set exts = {''.py'', ''.js''} \<and> distinct children \<and>
    set children =
      {File ''a.py'', Dir ''.hidden'' [File ''b.py''], Dir ''node_modules'' [File ''c.js'']}"
  proof -
    let ?P = "is_candidate exts"
    from a have dist: "distinct children" and ch: "set children =
      {File ''a.py'', Dir ''.hidden'' [File ''b.py''], Dir ''node_modules'' [File ''c.js'']}"
      by simp_all
    have fa: "filter ?P (rglob_node dir_path (File ''a.py'')) = [(dir_path @ [''a.py''], True)]"
      using a
      by (simp add: is_candidate_def suffix_def name_snoc rfind_def lower_def lower_char_def
          startswith_def)
    have fb: "filter ?P (rglob_node dir_path (Dir ''.hidden'' [File ''b.py''])) = []"
      by (simp add: is_candidate_def startswith_def)
    have fc: "filter ?P (rglob_node dir_path (Dir ''node_modules'' [File ''c.js''])) = []"
      by (simp add: is_candidate_def)
    have mem: "File ''a.py'' \<in> set children"
      by (simp add: ch)
    have others: "filter ?P (rglob_node dir_path t) = []"
      if "t \<in> set children" and "t \<noteq> File ''a.py''" for t
    proof -
      from that ch
      have "t = Dir ''.hidden'' [File ''b.py''] \<or> t = Dir ''node_modules'' [File ''c.js'']"
        by blast
      with fb fc show ?thesis by metis
    qed
    have "concat (map (\<lambda>c. filter ?P (rglob_node dir_path c)) children)
          = filter ?P (rglob_node dir_path (File ''a.py''))"
      using dist mem others by (rule concat_single)
    with fa have f: "filter ?P (rglob dir_path children) = [(dir_path @ [''a.py''], True)]"
      by (simp add: filter_rglob)
    from f walk show ?thesis by (simp only:) simp
  qed
  have yes: "index_directory_loop env force exts (e # es) w res =
        (case index_file env w (fst e) force of
           (Returns r, w') \<Rightarrow>
             index_directory_loop env force exts es w'
               ((case r of
                   Indexed n p \<Rightarrow> res\<lparr>indexed := indexed res + 1\<rparr>
                 | Skipped reason \<Rightarrow> res\<lparr>skipped := skipped res + 1\<rparr>)
                \<lparr>files := files res @ [r]\<rparr>)
         | (Raises x, w') \<Rightarrow> (Raises x, w')
         | (Diverges, w') \<Rightarrow> (Diverges, w'))" if "is_candidate exts e"
    using that by simp
  have no: "index_directory_loop env force exts (e # es) w res =
        index_directory_loop env force exts es w res" if "\<not> is_candidate exts e"
    using that by simp
  from test walk yes no scen show ?thesis by blast
qed

theorem traversal_filtering_witness:
  "filter (is_candidate [''.py'', ''.js''])
     (rglob [''/'', ''work'', ''proj'']
        [Dir ''node_modules'' [File ''c.js''], File ''a.py'', Dir ''.hidden'' [File ''b.py'']])
   = [([''/'', ''work'', ''proj'', ''a.py''], True)] \<and>
   is_candidate [''.py''] ([''/'', ''work'', ''Tool.PY''], True) \<and>
   \<not> is_candidate [''.py''] ([''/'', ''work'', ''__pycache__'', ''m.py''], True) \<and>
   \<not> is_candidate [''.py''] ([''/'', ''work'', ''notes.txt''], True) \<and>
   \<not> is_candidate [''.py''] ([''/'', ''work'', ''pkg.py''], False)"
proof -
  have a: "filter (is_candidate [''.py'', ''.js''])
     (rglob [''/'', ''work'', ''proj'']
        [Dir ''node_modules'' [File ''c.js''], File ''a.py'', Dir ''.hidden'' [File ''b.py'']])
   = [([''/'', ''work'', ''proj'', ''a.py''], True)]"
    using traversal_filtering[where dir_path = "[''/'', ''work'', ''proj'']"
      and exts = "[''.py'', ''.js'']"
      and children = "[Dir ''node_modules'' [File ''c.js''], File ''a.py'', Dir ''.hidden'' [File ''b.py'']]",
      THEN conjunct2, THEN conjunct2, THEN conjunct2, THEN conjunct2]
    by (auto simp: startswith_def)
  have b: "is_candidate [''.py''] ([''/'', ''work'', ''Tool.PY''], True)"
    using traversal_filtering[where exts = "[''.py'']" and p = "[''/'', ''work'', ''Tool.PY'']"
      and isf = True, THEN conjunct1]
    by (simp add: suffix_def name_def is_absolute_def rfind_def lower_def lower_char_def
        startswith_def)
  have c: "\<not> is_candidate [''.py''] ([''/'', ''work'', ''__pycache__'', ''m.py''], True)"
    using traversal_filtering[where exts = "[''.py'']"
      and p = "[''/'', ''work'', ''__pycache__'', ''m.py'']" and isf = True, THEN conjunct1]
    by simp
  have d: "\<not> is_candidate [''.py''] ([''/'', ''work'', ''notes.txt''], True)"
    using traversal_filtering[where exts = "[''.py'']"
      and p = "[''/'', ''work'', ''notes.txt'']" and isf = True, THEN conjunct1]
    by (simp add: suffix_def name_def is_absolute_def rfind_def lower_def lower_char_def)
  have e: "\<not> is_candidate [''.py''] ([''/'', ''work'', ''pkg.py''], False)"
    using traversal_filtering[where exts = "[''.py'']"
      and p = "[''/'', ''work'', ''pkg.py'']" and isf = False, THEN conjunct1]
    by simp
  from a b c d e show ?thesis by blast
qed

section \<open>Search results\<close>

lemma format_loop_rows:
  fixes ds :: "('d::{one,minus}) list"
  assumes "results = \<lparr>q_ids = [ids], q_distances = [ds], q_documents = [docs], q_metadatas = [ms]\<rparr>"
    and "length ds = length ids" "length docs = length ids" "length ms = length ids"
  shows "\<forall>i\<in>set js. i < length ids \<Longrightarrow>
    format_loop results js formatted =
      Returns (formatted @
        map (\<lambda>i. \<lparr>h_id = ids ! i, h_score = 1 - ds ! i, h_text = docs ! i,
                   h_path = m_path (ms ! i), h_filename = m_filename (ms ! i),
                   h_chunk_idx = m_chunk_idx (ms ! i)\<rparr>) js)"
  using assms by (induction js arbitrary: formatted) (simp_all add: format_hit_def item_def)

text \<open>
  C8. When the store answers the one query with one row of \<open>n\<close> ids, distances,
  documents and metadata, \<open>search\<close> returns \<open>n\<close> results in the order of that row,
  the \<open>i\<close>-th with the fields \<open>id\<close>, \<open>score\<close>, \<open>text\<close>, \<open>path\<close>,
  \<open>filename\<close>, \<open>chunk_idx\<close> of the \<open>i\<close>-th record and the score \<open>1 - d\<close> for its
  distance \<open>d\<close>; when the store returns no record (no row, or an empty row) the result
  is the empty list. The calls made are one \<open>encode\<close> of the query and one \<open>query\<close>.
  The subtraction is that of the number type of the distances.
\<close>

theorem search_formats_in_order:
  fixes env :: "('e, 'd::{one,minus}) env"
  shows
  "(nearest env (store w) [embed env query] limit =
      \<lparr>q_ids = [ids], q_distances = [ds], q_documents = [docs], q_metadatas = [ms]\<rparr> \<and>
    length ds = length ids \<and> length docs = length ids \<and> length ms = length ids \<longrightarrow>
      search env w query limit =
        (Returns (map (\<lambda>i. \<lparr>h_id = ids ! i, h_score = 1 - ds ! i, h_text = docs ! i,
                   h_path = m_path (ms ! i), h_filename = m_filename (ms ! i),
                   h_chunk_idx = m_chunk_idx (ms ! i)\<rparr>) [0..<length ids]),
         w\<lparr>calls := calls w @ [Call_encode [query], Call_query limit]\<rparr>)) \<and>
   (q_ids (nearest env (store w) [embed env query] limit) = [] \<or>
    q_ids (nearest env (store w) [embed env query] limit) = [[]] \<longrightarrow>
      search env w query limit =
        (Returns [], w\<lparr>calls := calls w @ [Call_encode [query], Call_query limit]\<rparr>))"
proof (intro conjI impI)
  assume a: "nearest env (store w) [embed env query] limit =
      \<lparr>q_ids = [ids], q_distances = [ds], q_documents = [docs], q_metadatas = [ms]\<rparr> \<and>
    length ds = length ids \<and> length docs = length ids \<and> length ms = length ids"
  show "search env w query limit =
        (Returns (map (\<lambda>i. \<lparr>h_id = ids ! i, h_score = 1 - ds ! i, h_text = docs ! i,
                   h_path = m_path (ms ! i), h_filename = m_filename (ms ! i),
                   h_chunk_idx = m_chunk_idx (ms ! i)\<rparr>) [0..<length ids]),
         w\<lparr>calls := calls w @ [Call_encode [query], Call_query limit]\<rparr>)"
  proof (cases "ids = []")
    case True
    with a show ?thesis by (simp add: search_def called_def Let_def)
  next
    case False
    have "format_loop (nearest env (store w) [embed env query] limit) [0..<length ids] [] =
      Returns ([] @ map (\<lambda>i. \<lparr>h_id = ids ! i, h_score = 1 - ds ! i, h_text = docs ! i,
                   h_path = m_path (ms ! i), h_filename = m_filename (ms ! i),
                   h_chunk_idx = m_chunk_idx (ms ! i)\<rparr>) [0..<length ids])"
      using a by (intro format_loop_rows) auto
    with a False show ?thesis by (simp add: search_def called_def Let_def)
  qed
next
  assume "q_ids (nearest env (store w) [embed env query] limit) = [] \<or>
    q_ids (nearest env (store w) [embed env query] limit) = [[]]"
  then show "search env w query limit =
        (Returns [], w\<lparr>calls := calls w @ [Call_encode [query], Call_query limit]\<rparr>)"
    by (auto simp: search_def called_def Let_def)
qed

theorem search_formats_in_order_witness:
  "fst (search (sample_env Skip_existing (\<lambda>p. no_file) (\<lambda>p. []))
     \<lparr>store = [sample_chunk ''/work/a.txt'' ''a.txt'' 0 [104, 105] ''h1'',
                sample_chunk ''/work/b.txt'' ''b.txt'' 0 [121, 111, 117] ''h2''], calls = []\<rparr>
     [104, 105] 5) =
   Returns
     [\<lparr>h_id = ''/work/a.txt::0'', h_score = 1, h_text = [104, 105], h_path = ''/work/a.txt'',
       h_filename = ''a.txt'', h_chunk_idx = 0\<rparr>,
      \<lparr>h_id = ''/work/b.txt::0'', h_score = 0, h_text = [121, 111, 117], h_path = ''/work/b.txt'',
       h_filename = ''b.txt'', h_chunk_idx = 0\<rparr>] \<and>
   fst (search (sample_env Skip_existing (\<lambda>p. no_file) (\<lambda>p. [])) empty_world [104, 105] 5) =
   Returns []"
  using search_formats_in_order[where env = "sample_env Skip_existing (\<lambda>p. no_file) (\<lambda>p. [])"
      and w = "\<lparr>store = [sample_chunk ''/work/a.txt'' ''a.txt'' 0 [104, 105] ''h1'',
                sample_chunk ''/work/b.txt'' ''b.txt'' 0 [121, 111, 117] ''h2''], calls = []\<rparr>"
      and query = "[104, 105]" and limit = 5
      and ids = "[''/work/a.txt::0'', ''/work/b.txt::0'']" and ds = "[0, 1]"
      and docs = "[[104, 105], [121, 111, 117]]"
      and ms = "[\<lparr>m_path = ''/work/a.txt'', m_filename = ''a.txt'', m_chunk_idx = 0, m_hash = ''h1''\<rparr>,
                 \<lparr>m_path = ''/work/b.txt'', m_filename = ''b.txt'', m_chunk_idx = 0, m_hash = ''h2''\<rparr>]"]
    search_formats_in_order[where env = "sample_env Skip_existing (\<lambda>p. no_file) (\<lambda>p. [])"
      and w = empty_world and query = "[104, 105]" and limit = 5]
  by (simp add: sample_env_def sample_chunk_def empty_world_def str_nat.simps digit_char_def
      upt_rec)

section \<open>Failures while reading a file\<close>

lemma chunk_and_store_skipped:
  "chunk_and_store env w p pre h txt = (Returns (Skipped reason), w') \<Longrightarrow> reason = ''empty''"
  by (auto simp: chunk_and_store_def Let_def split: option.splits if_splits sum.splits)

text \<open>
  C6. The claim is that an I/O failure of a read, for a path that passed the existence
  check, is an error and never a skip. The \<open>try\<close> around \<open>read_text\<close> has a bare
  \<open>except\<close>: a read that fails with an I/O error gives \<open>skipped\<close>, reason
  \<open>not text\<close>.
\<close>

theorem text_read_io_error_counterexample:
  "fv_is_file \<lparr>fv_is_file = True, fv_text = Text_io_error, fv_digest = Digest ''h1''\<rparr> \<and>
   index_file
     (sample_env Skip_existing
        (\<lambda>p. \<lparr>fv_is_file = True, fv_text = Text_io_error, fv_digest = Digest ''h1''\<rparr>) (\<lambda>p. []))
     empty_world [''a.txt''] False
   = (Returns (Skipped ''not text''), empty_world)"
  by (simp add: index_file_def file_hash_def sample_env_def)

text \<open>
  C6, as the code has it, for a path that passes the existence check: an I/O failure of
  \<open>read_text\<close> is reported as \<open>skipped\<close> with the reason \<open>not text\<close>, as undecodable
  content is; an I/O failure of the second read, in \<open>file_hash\<close>, is raised out of
  \<open>index_file\<close> with the store untouched, and the command loop answers it with an error;
  and a skip has the reason \<open>not text\<close> (the text read failed, either way),
  \<open>unchanged\<close> or \<open>empty\<close>.
\<close>

theorem read_failures:
  fixes env :: "('e, 'd::{one,minus}) env"
  assumes "fv_is_file (fs env (absolute (cwd env) p))"
  shows
  "(fv_text (fs env (absolute (cwd env) p)) = Text_io_error \<longrightarrow>
      index_file env w p force = (Returns (Skipped ''not text''), w)) \<and>
   (fv_text (fs env (absolute (cwd env) p)) = Text content \<and>
    fv_digest (fs env (absolute (cwd env) p)) = Digest_io_error \<longrightarrow>
      index_file env w p force = (Raises OSError, w) \<and>
      (p_collection st = Some c \<and> cmd_cmd cmd = Some ''index_file'' \<and> cmd_path cmd = Some p \<longrightarrow>
         fst (main_step env st cmd) = Returns (Resp_exception OSError))) \<and>
   (index_file env w p force = (Returns (Skipped reason), w') \<longrightarrow>
      reason = ''not text'' \<and> fv_text (fs env (absolute (cwd env) p)) \<in> {Undecodable, Text_io_error}
      \<or> reason = ''unchanged'' \<or> reason = ''empty'')"
proof (intro conjI impI)
  assume "fv_text (fs env (absolute (cwd env) p)) = Text_io_error"
  with assms show "index_file env w p force = (Returns (Skipped ''not text''), w)"
    by (simp add: index_file_def file_hash_def)
next
  assume a: "fv_text (fs env (absolute (cwd env) p)) = Text content \<and>
    fv_digest (fs env (absolute (cwd env) p)) = Digest_io_error"
  with assms show "index_file env w p force = (Raises OSError, w)"
    by (simp add: index_file_def file_hash_def)
  assume b: "p_collection st = Some c \<and> cmd_cmd cmd = Some ''index_file'' \<and> cmd_path cmd = Some p"
  from assms a have "\<And>w f. index_file env w p f = (Raises OSError, w)"
    by (simp add: index_file_def file_hash_def)
  with b show "fst (main_step env st cmd) = Returns (Resp_exception OSError)"
    by (simp add: main_step_def handle_command_def get_or_def answer_def)
next
  assume r: "index_file env w p force = (Returns (Skipped reason), w')"
  let ?v = "fs env (absolute (cwd env) p)"
  show "reason = ''not text'' \<and> fv_text ?v \<in> {Undecodable, Text_io_error}
      \<or> reason = ''unchanged'' \<or> reason = ''empty''"
  proof (cases "fv_text ?v")
    case (Text t)
    show ?thesis
    proof (cases "fv_digest ?v")
      case (Digest h)
      from r assms Text Digest show ?thesis
        by (auto simp: index_file_def file_hash_def Let_def split: if_splits dest: chunk_and_store_skipped)
    next
      case Digest_io_error
      with r assms Text show ?thesis by (simp add: index_file_def file_hash_def)
    qed
  next
    case Undecodable
    with r assms show ?thesis by (simp add: index_file_def file_hash_def)
  next
    case Text_io_error
    with r assms show ?thesis by (simp add: index_file_def file_hash_def)
  qed
qed

theorem read_failures_witness:
  "index_file
     (sample_env Skip_existing
        (\<lambda>p. \<lparr>fv_is_file = True, fv_text = Text_io_error, fv_digest = Digest ''h1''\<rparr>) (\<lambda>p. []))
     empty_world [''a.txt''] False
   = (Returns (Skipped ''not text''), empty_world) \<and>
   index_file
     (sample_env Skip_existing
        (\<lambda>p. \<lparr>fv_is_file = True, fv_text = Text [104, 105], fv_digest = Digest_io_error\<rparr>) (\<lambda>p. []))
     empty_world [''a.txt''] False
   = (Raises OSError, empty_world) \<and>
   fst (main_step
     (sample_env Skip_existing
        (\<lambda>p. \<lparr>fv_is_file = True, fv_text = Text [104, 105], fv_digest = Digest_io_error\<rparr>) (\<lambda>p. []))
     \<lparr>p_collection = Some [], p_calls = []\<rparr>
     (no_command\<lparr>cmd_cmd := Some ''index_file'', cmd_path := Some [''a.txt'']\<rparr>))
   = Returns (Resp_exception OSError)"
  using read_failures[where env = "sample_env Skip_existing
        (\<lambda>p. \<lparr>fv_is_file = True, fv_text = Text_io_error, fv_digest = Digest ''h1''\<rparr>) (\<lambda>p. [])"
      and p = "[''a.txt'']" and w = empty_world and force = False]
    read_failures[where env = "sample_env Skip_existing
        (\<lambda>p. \<lparr>fv_is_file = True, fv_text = Text [104, 105], fv_digest = Digest_io_error\<rparr>) (\<lambda>p. [])"
      and p = "[''a.txt'']" and w = empty_world and force = False and content = "[104, 105]"
      and st = "\<lparr>p_collection = Some [], p_calls = []\<rparr>" and c = "[]"
      and cmd = "no_command\<lparr>cmd_cmd := Some ''index_file'', cmd_path := Some [''a.txt'']\<rparr>"]
  by (simp add: sample_env_def no_command_def)

section \<open>Errors during a directory scan\<close>



lemma index_file_fingerprint_fails:
  "fingerprint_fails (fs env (absolute (cwd env) p)) \<Longrightarrow>
   index_file env w p force = (Raises OSError, w)"
  by (auto simp: index_file_def file_hash_def fingerprint_fails_def split: text_read.splits)








section \<open>Ids and the records of a path\<close>

text \<open>
  An id \<open>prefix::i\<close> determines its prefix: the digits of \<open>i\<close> end at the last
  \<open>::\<close>.
\<close>

lemma digit_char_digit: "d < 10 \<Longrightarrow> is_digit (digit_char d)"
  unfolding digit_char_def is_digit_def by (rule nth_mem) simp

lemma str_nat_digits: "\<forall>c\<in>set (str_nat n). is_digit c"
proof (induction n rule: str_nat.induct)
  case (1 n)
  show ?case
  proof (cases "n < 10")
    case True
    then show ?thesis using digit_char_digit[of n] by (subst str_nat.simps) simp
  next
    case False
    have "n mod 10 < 10" by simp
    from digit_char_digit[OF this] 1[OF False] False show ?thesis
      by (subst str_nat.simps) simp
  qed
qed

lemma not_digit_colon: "\<not> is_digit (CHR '':'')"
  by (simp add: is_digit_def)

lemma takeWhile_digits_sep:
  assumes "\<forall>c\<in>set ds. is_digit c"
  shows "takeWhile is_digit (rev ds @ ''::'' @ rest) = rev ds"
proof -
  have "takeWhile is_digit (rev ds @ ''::'' @ rest) = rev ds @ takeWhile is_digit (''::'' @ rest)"
    using assms by (intro takeWhile_append2) simp
  then show ?thesis by (simp add: not_digit_colon)
qed

lemma doc_id_prefix_inj:
  assumes "p @ ''::'' @ str_nat i = q @ ''::'' @ str_nat j"
  shows "p = q"
proof -
  from assms have "rev (p @ ''::'' @ str_nat i) = rev (q @ ''::'' @ str_nat j)" by simp
  then have e: "rev (str_nat i) @ ''::'' @ rev p = rev (str_nat j) @ ''::'' @ rev q" by simp
  have "rev (str_nat i) = takeWhile is_digit (rev (str_nat i) @ ''::'' @ rev p)"
    by (simp only: takeWhile_digits_sep[OF str_nat_digits])
  also have "\<dots> = takeWhile is_digit (rev (str_nat j) @ ''::'' @ rev q)"
    by (simp only: e)
  also have "\<dots> = rev (str_nat j)"
    by (simp only: takeWhile_digits_sep[OF str_nat_digits])
  finally have "str_nat i = str_nat j" by simp
  with assms show ?thesis by simp
qed

lemma new_records_path:
  "r \<in> set (new_records pre fname h emb chunks) \<Longrightarrow>
   m_path (c_metadata r) = pre \<and> m_hash (c_metadata r) = h \<and>
   (\<exists>i. c_id r = pre @ ''::'' @ str_nat i) \<and>
   c_id r = m_path (c_metadata r) @ ''::'' @ str_nat (m_chunk_idx (c_metadata r))"
  by (auto simp: new_records_def)

lemma coll_get_new_records:
  "coll_get (new_records pre fname h emb chunks) pre = new_records pre fname h emb chunks"
  by (simp add: coll_get_def new_records_def filter_map comp_def split_def)

lemma new_records_fresh:
  assumes wf: "store_wf c" and none: "coll_get c pre = []"
  shows "filter (\<lambda>r. c_id r \<notin> set (map c_id c)) (new_records pre fname h emb chunks) =
         new_records pre fname h emb chunks"
    and "\<not> list_ex (\<lambda>r. c_id r \<in> set (map c_id c)) (new_records pre fname h emb chunks)"
proof -
  have fresh: "c_id r \<notin> set (map c_id c)" if r: "r \<in> set (new_records pre fname h emb chunks)" for r
  proof
    assume "c_id r \<in> set (map c_id c)"
    then obtain r' where r': "r' \<in> set c" "c_id r' = c_id r" by auto
    from new_records_path[OF r] obtain i where i: "c_id r = pre @ ''::'' @ str_nat i" by blast
    from wf r'(1) have "c_id r' = m_path (c_metadata r') @ ''::'' @ str_nat (m_chunk_idx (c_metadata r'))"
      by (simp add: store_wf_def list_all_iff)
    with r'(2) i have "m_path (c_metadata r') = pre"
      using doc_id_prefix_inj by metis
    with r'(1) have "r' \<in> set (coll_get c pre)" by (simp add: coll_get_def)
    with none show False by simp
  qed
  then show "filter (\<lambda>r. c_id r \<notin> set (map c_id c)) (new_records pre fname h emb chunks) =
         new_records pre fname h emb chunks"
    by (simp add: filter_id_conv)
  from fresh show "\<not> list_ex (\<lambda>r. c_id r \<in> set (map c_id c)) (new_records pre fname h emb chunks)"
    by (auto simp: list_ex_iff)
qed

lemma coll_get_append: "coll_get (c @ d) p = coll_get c p @ coll_get d p"
  by (simp add: coll_get_def)

lemma coll_get_deleted:
  "coll_get (coll_delete c (map c_id (coll_get c p))) p = []"
  by (auto simp: coll_get_def coll_delete_def filter_empty_conv)

lemma store_wf_delete: "store_wf c \<Longrightarrow> store_wf (coll_delete c ids)"
  by (auto simp: store_wf_def coll_delete_def list_all_iff)

text \<open>What a successful \<open>chunk_and_store\<close> leaves for a path that had no record.\<close>

lemma chunk_and_store_indexed:
  assumes wf: "store_wf (store w)" and none: "coll_get (store w) pre = []"
    and ret: "chunk_and_store env w p pre h content = (Returns (Indexed n s), w1)"
  shows "\<exists>chunks. chunk_text content 500 50 = Some chunks \<and> chunks \<noteq> [] \<and> n = length chunks \<and>
           store w1 = store w @ new_records pre (name p) h (embed env) chunks \<and>
           coll_get (store w1) pre = new_records pre (name p) h (embed env) chunks \<and>
           calls w1 = calls w @ [Call_encode chunks,
              Call_add (map c_id (new_records pre (name p) h (embed env) chunks))]"
proof -
  from ret obtain chunks where ch: "chunk_text content 500 50 = Some chunks" "chunks \<noteq> []"
    by (auto simp: chunk_and_store_def split: option.splits if_splits)
  let ?recs = "new_records pre (name p) h (embed env) chunks"
  let ?w2 = "called (Call_add (map c_id ?recs)) (called (Call_encode chunks) w)"
  have unf: "chunk_and_store env w p pre h content =
      (case coll_add (policy env) (store ?w2) ?recs of
         Inl e \<Rightarrow> (Raises e, ?w2)
       | Inr c \<Rightarrow> (Returns (Indexed (length chunks) (path_str p)), ?w2\<lparr>store := c\<rparr>))"
    using ch by (simp add: chunk_and_store_def Let_def)
  have sw2: "store ?w2 = store w" and cw2: "calls ?w2 = calls w @ [Call_encode chunks, Call_add (map c_id ?recs)]"
    by (simp_all add: called_def)
  obtain c where c: "coll_add (policy env) (store w) ?recs = Inr c"
    using ret unfolding unf sw2 by (cases "coll_add (policy env) (store w) ?recs") auto
  from ret have w1: "w1 = ?w2\<lparr>store := c\<rparr>" and n: "n = length chunks"
    unfolding unf sw2 c by simp_all
  from w1 c have add: "coll_add (policy env) (store w) ?recs = Inr (store w1)" by simp
  from w1 cw2 have cl: "calls w1 = calls w @ [Call_encode chunks, Call_add (map c_id ?recs)]"
    by simp
  note fresh = new_records_fresh[OF wf none, of "name p" h "embed env" chunks]
  have st: "store w1 = store w @ ?recs"
  proof (cases "policy env")
    case Skip_existing
    with add have "store w1 = store w @ filter (\<lambda>r. c_id r \<notin> set (map c_id (store w))) ?recs"
      by (simp add: coll_add_def)
    then show ?thesis by (simp only: fresh(1))
  next
    case Raise_existing
    with add fresh(2) show ?thesis by (simp add: coll_add_def)
  qed
  then have "coll_get (store w1) pre = ?recs"
    using none by (simp add: coll_get_append coll_get_new_records)
  with ch n st cl show ?thesis by (intro exI[of _ chunks]) simp
qed

section \<open>Re-indexing an unchanged file\<close>

text \<open>
  A call without \<open>force\<close> that returns \<open>indexed\<close> leaves, for its path, exactly the
  records of the new chunking.
\<close>

lemma index_file_indexed:
  assumes wf: "store_wf (store w)"
    and ret: "index_file env w p False = (Returns (Indexed n s), w1)"
  shows "\<exists>content h chunks.
           fv_is_file (fs env (absolute (cwd env) p)) \<and>
           fv_text (fs env (absolute (cwd env) p)) = Text content \<and>
           fv_digest (fs env (absolute (cwd env) p)) = Digest h \<and>
           chunk_text content 500 50 = Some chunks \<and> chunks \<noteq> [] \<and> n = length chunks \<and>
           coll_get (store w1) (path_str (absolute (cwd env) p)) =
             new_records (path_str (absolute (cwd env) p)) (name p) h (embed env) chunks"
proof -
  let ?v = "fs env (absolute (cwd env) p)"
  let ?pre = "path_str (absolute (cwd env) p)"
  have isf: "fv_is_file ?v"
  proof (rule ccontr)
    assume "\<not> fv_is_file ?v"
    with ret show False by (simp add: index_file_def file_hash_def)
  qed
  from ret isf obtain content where tx: "fv_text ?v = Text content"
    by (cases "fv_text ?v") (auto simp: index_file_def file_hash_def)
  from ret isf tx obtain h where dg: "fv_digest ?v = Digest h"
    by (cases "fv_digest ?v") (auto simp: index_file_def file_hash_def)
  let ?ex = "coll_get (store w) ?pre"
  let ?w1 = "called (Call_get ?pre) w"
  let ?wd = "called (Call_delete (map c_id ?ex)) (?w1\<lparr>store := coll_delete (store ?w1) (map c_id ?ex)\<rparr>)"
  have unf: "index_file env w p False =
    (if ?ex \<noteq> [] then
       if m_hash (c_metadata (hd ?ex)) = h then (Returns (Skipped ''unchanged''), ?w1)
       else chunk_and_store env ?wd p ?pre h content
     else chunk_and_store env ?w1 p ?pre h content)"
    using isf tx dg by (simp add: index_file_def file_hash_def Let_def)
  obtain w0 where w0: "chunk_and_store env w0 p ?pre h content = (Returns (Indexed n s), w1)"
    and wf0: "store_wf (store w0)" and none0: "coll_get (store w0) ?pre = []"
  proof (cases "?ex = []")
    case True
    with ret unf have "chunk_and_store env ?w1 p ?pre h content = (Returns (Indexed n s), w1)"
      by simp
    moreover have "store_wf (store ?w1)" using wf by (simp add: called_def)
    moreover have "coll_get (store ?w1) ?pre = []" using True by (simp add: called_def)
    ultimately show ?thesis by (rule that)
  next
    case False
    with ret unf have "chunk_and_store env ?wd p ?pre h content = (Returns (Indexed n s), w1)"
      by (simp split: if_splits)
    moreover have "store_wf (store ?wd)" using wf by (simp add: called_def store_wf_delete)
    moreover have "coll_get (store ?wd) ?pre = []" by (simp add: called_def coll_get_deleted)
    ultimately show ?thesis by (rule that)
  qed
  from chunk_and_store_indexed[OF wf0 none0 w0] isf tx dg show ?thesis by blast
qed

text \<open>
  After a call without \<open>force\<close> has returned \<open>indexed\<close>, the next call on the same
  file finds the records with the current hash.
\<close>

lemma second_call_unchanged:
  assumes "store_wf (store w)"
    and "index_file env w p False = (Returns (Indexed n s), w1)"
  shows "index_file env w1 p False =
           (Returns (Skipped ''unchanged''),
            w1\<lparr>calls := calls w1 @ [Call_get (path_str (absolute (cwd env) p))]\<rparr>)"
proof -
  let ?pre = "path_str (absolute (cwd env) p)"
  from index_file_indexed[OF assms] obtain content h chunks where
    v: "fv_is_file (fs env (absolute (cwd env) p))"
       "fv_text (fs env (absolute (cwd env) p)) = Text content"
       "fv_digest (fs env (absolute (cwd env) p)) = Digest h"
    and ch: "chunks \<noteq> []"
    and g: "coll_get (store w1) ?pre = new_records ?pre (name p) h (embed env) chunks"
    by blast
  from ch obtain c cs where cs: "chunks = c # cs" by (cases chunks) auto
  have ne: "coll_get (store w1) ?pre \<noteq> []" and hd: "m_hash (c_metadata (hd (coll_get (store w1) ?pre))) = h"
    unfolding g by (simp_all add: cs new_records_def)
  show ?thesis
    using v ne hd by (simp add: index_file_def file_hash_def Let_def called_def)
qed

text \<open>
  A text is chunked into at least one chunk exactly when it is not blank: every
  position lies in a window, since the step 450 is below the window length 500.
\<close>

lemma set_py_slice: "set (py_slice xs a b) \<subseteq> set xs"
  unfolding py_slice_def Let_def
  by (meson set_take_subset set_drop_subset subset_trans)

lemma chunk_text_blank:
  assumes "strip content = []"
  shows "chunk_text content 500 50 = Some []"
proof -
  obtain m where m: "\<forall>k. k < m \<longleftrightarrow> int k * (500 - 50) < int (length content)"
    using window_count_exists[of "500 - 50" "length content"] by auto
  have "strip (py_slice content a b) = []" for a b
    using assms set_py_slice[of content a b] by (auto simp: strip_eq_Nil_iff)
  then have "filter (\<lambda>w. strip w \<noteq> [])
        (map (\<lambda>k. py_slice content (int k * (500 - 50)) (int k * (500 - 50) + 500)) [0..<m]) = []"
    by (simp add: filter_empty_conv)
  with chunk_text_windows_upto[of 50 500 m "content"] m show ?thesis by simp
qed

lemma py_slice_window:
  assumes "int k * 450 < int (length xs)"
  shows "py_slice xs (int k * 450) (int k * 450 + 500) = take 500 (drop (k * 450) xs)"
proof -
  define a where "a = int k * 450"
  have a0: "0 \<le> a" and an: "a < int (length xs)" and na: "nat a = k * 450"
    using assms by (simp_all add: a_def nat_mult_distrib)
  have ps: "py_slice xs a (a + 500) =
      take (nat (min (a + 500) (int (length xs)) - a)) (drop (nat a) xs)"
    using a0 an by (simp add: py_slice_def Let_def)
  show ?thesis
  proof (cases "a + 500 \<le> int (length xs)")
    case True
    then have "nat (min (a + 500) (int (length xs)) - a) = 500" by simp
    with ps show ?thesis by (simp only: na a_def[symmetric])
  next
    case False
    then have "min (a + 500) (int (length xs)) - a = int (length xs) - a" by simp
    moreover have "nat (int (length xs) - a) = length (drop (k * 450) xs)"
      using a0 an na by (simp add: nat_diff_distrib)
    moreover have "length (drop (k * 450) xs) \<le> 500"
      using False na by simp
    ultimately show ?thesis
      using ps by (simp only: na a_def[symmetric]) simp
  qed
qed

lemma chunk_text_not_blank:
  assumes "strip content \<noteq> []"
  shows "\<exists>chunks. chunk_text content 500 50 = Some chunks \<and> chunks \<noteq> []"
proof -
  obtain m where m: "\<forall>k. k < m \<longleftrightarrow> int k * 450 < int (length content)"
    using window_count_exists[of 450 "length content"] by auto
  let ?W = "\<lambda>k. py_slice content (int k * 450) (int k * 450 + 500)"
  have ct: "chunk_text content 500 50 = Some (filter (\<lambda>w. strip w \<noteq> []) (map ?W [0..<m]))"
    using chunk_text_windows_upto[of 50 500 m "content"] m by simp
  from assms obtain c where c: "c \<in> set content" "\<not> is_space c"
    by (auto simp: strip_eq_Nil_iff)
  then obtain i where i: "i < length content" "content ! i = c"
    by (auto simp: in_set_conv_nth)
  define k where "k = i div 450"
  define j where "j = i mod 450"
  have ij: "k * 450 + j = i" and j: "j < 450" by (simp_all add: k_def j_def)
  have ki: "k * 450 \<le> i" using ij by linarith
  have kl: "int k * 450 < int (length content)" using ki i(1) by linarith
  have km: "k < m" using m kl by simp
  have wk: "?W k = take 500 (drop (k * 450) content)"
    using kl by (rule py_slice_window)
  have jl: "j < length (drop (k * 450) content)" using i(1) ij by simp
  have "drop (k * 450) content ! j = content ! (k * 450 + j)"
    using ki i(1) by (intro nth_drop) simp
  then have dj: "drop (k * 450) content ! j = c" using ij i(2) by simp
  have "take 500 (drop (k * 450) content) ! j = c"
    using j dj by simp
  moreover have "j < length (take 500 (drop (k * 450) content))"
    using j jl by simp
  ultimately have "c \<in> set (take 500 (drop (k * 450) content))"
    using nth_mem by blast
  then have cw: "c \<in> set (?W k)" by (simp only: wk)
  have "strip (?W k) \<noteq> []"
    using cw c(2) unfolding strip_eq_Nil_iff by blast
  moreover have "?W k \<in> set (map ?W [0..<m])" using km by simp
  ultimately have "\<exists>x\<in>set (map ?W [0..<m]). strip x \<noteq> []" by blast
  then have "filter (\<lambda>w. strip w \<noteq> []) (map ?W [0..<m]) \<noteq> []"
    by (simp only: filter_empty_conv) blast
  with ct show ?thesis by simp
qed

lemma chunk_and_store_fresh:
  assumes wf: "store_wf (store w)" and none: "coll_get (store w) pre = []"
    and ch: "chunk_text content 500 50 = Some chunks" and ne: "chunks \<noteq> []"
  shows "\<exists>w1. chunk_and_store env w p pre h content =
           (Returns (Indexed (length chunks) (path_str p)), w1)"
proof -
  let ?recs = "new_records pre (name p) h (embed env) chunks"
  note fresh = new_records_fresh[OF wf none, of "name p" h "embed env" chunks]
  have "coll_add (policy env) (store w) ?recs = Inr (store w @ ?recs)"
  proof (cases "policy env")
    case Skip_existing
    then show ?thesis by (simp only: coll_add_def add_policy.case fresh(1))
  next
    case Raise_existing
    with fresh(2) show ?thesis by (simp add: coll_add_def)
  qed
  with ch ne show ?thesis
    by (simp add: chunk_and_store_def Let_def called_def)
qed

lemma index_file_first_call:
  assumes wf: "store_wf (store w)"
    and isf: "fv_is_file (fs env (absolute (cwd env) p))"
    and tx: "fv_text (fs env (absolute (cwd env) p)) = Text content"
    and dg: "fv_digest (fs env (absolute (cwd env) p)) = Digest h"
    and nb: "strip content \<noteq> []"
    and stale: "coll_get (store w) (path_str (absolute (cwd env) p)) = [] \<or>
       m_hash (c_metadata (hd (coll_get (store w) (path_str (absolute (cwd env) p))))) \<noteq> h"
  shows "\<exists>n w1. 0 < n \<and> index_file env w p False = (Returns (Indexed n (path_str p)), w1)"
proof -
  let ?pre = "path_str (absolute (cwd env) p)"
  let ?ex = "coll_get (store w) ?pre"
  let ?w1 = "called (Call_get ?pre) w"
  let ?wd = "called (Call_delete (map c_id ?ex)) (?w1\<lparr>store := coll_delete (store ?w1) (map c_id ?ex)\<rparr>)"
  from chunk_text_not_blank[OF nb] obtain chunks where
    ch: "chunk_text content 500 50 = Some chunks" and ne: "chunks \<noteq> []" by blast
  have unf: "index_file env w p False =
    (if ?ex \<noteq> [] then
       if m_hash (c_metadata (hd ?ex)) = h then (Returns (Skipped ''unchanged''), ?w1)
       else chunk_and_store env ?wd p ?pre h content
     else chunk_and_store env ?w1 p ?pre h content)"
    using isf tx dg by (simp add: index_file_def file_hash_def Let_def)
  have n0: "0 < length chunks" using ne by simp
  show ?thesis
  proof (cases "?ex = []")
    case True
    have "store_wf (store ?w1)" using wf by (simp add: called_def)
    moreover have "coll_get (store ?w1) ?pre = []" using True by (simp add: called_def)
    ultimately obtain w2 where
      "chunk_and_store env ?w1 p ?pre h content = (Returns (Indexed (length chunks) (path_str p)), w2)"
      using chunk_and_store_fresh[OF _ _ ch ne, of ?w1 ?pre env p h] by blast
    with unf True n0 show ?thesis by auto
  next
    case False
    with stale have hs: "m_hash (c_metadata (hd ?ex)) \<noteq> h" by simp
    have "store_wf (store ?wd)" using wf by (simp add: called_def store_wf_delete)
    moreover have "coll_get (store ?wd) ?pre = []" by (simp add: called_def coll_get_deleted)
    ultimately obtain w2 where
      "chunk_and_store env ?wd p ?pre h content = (Returns (Indexed (length chunks) (path_str p)), w2)"
      using chunk_and_store_fresh[OF _ _ ch ne, of ?wd ?pre env p h] by blast
    with unf False hs n0 show ?thesis by auto
  qed
qed

text \<open>
  C5. The claim is that, for every file, the first of two calls without \<open>force\<close>
  returns \<open>indexed\<close> and the second \<open>skipped\<close> with the reason \<open>unchanged\<close>. A file
  that holds only white space has no chunk: both calls return \<open>skipped\<close> with the
  reason \<open>empty\<close>, and nothing is stored that a later call could find unchanged.
\<close>

theorem blank_file_counterexample:
  "index_file (sample_env Skip_existing (\<lambda>p. text_file [32, 10] ''h1'') (\<lambda>p. []))
     empty_world [''a.txt''] False =
     (Returns (Skipped ''empty''), \<lparr>store = [], calls = [Call_get ''/work/a.txt'']\<rparr>) \<and>
   index_file (sample_env Skip_existing (\<lambda>p. text_file [32, 10] ''h1'') (\<lambda>p. []))
     \<lparr>store = [], calls = [Call_get ''/work/a.txt'']\<rparr> [''a.txt''] False =
     (Returns (Skipped ''empty''),
      \<lparr>store = [], calls = [Call_get ''/work/a.txt'', Call_get ''/work/a.txt'']\<rparr>)"
proof -
  have "strip [32, 10] = []" by (simp add: strip_eq_Nil_iff is_space_def)
  from chunk_text_blank[OF this] show ?thesis
    by (simp add: eval_defs)
qed

text \<open>
  C5, as the code has it, in a store whose ids were formed by \<open>index_file\<close>: for a
  regular file whose text can be read and is not blank, whose fingerprint can be read,
  and for whose path the store has no record, or a first record with another hash, the
  first of two calls without \<open>force\<close> on the unchanged file returns \<open>indexed\<close> with at
  least one chunk, and the second returns \<open>skipped\<close> with the reason \<open>unchanged\<close>; its
  only call is the \<open>get\<close> for the path, with no \<open>encode\<close>, \<open>delete\<close> or \<open>add\<close>, and
  the store is what it was. The second half holds after any call without \<open>force\<close> that
  returned \<open>indexed\<close>.
\<close>

theorem unchanged_reindex_skips:
  assumes "store_wf (store w)"
  shows
  "(fv_is_file (fs env (absolute (cwd env) p)) \<and>
    fv_text (fs env (absolute (cwd env) p)) = Text content \<and>
    fv_digest (fs env (absolute (cwd env) p)) = Digest h \<and>
    strip content \<noteq> [] \<and>
    (coll_get (store w) (path_str (absolute (cwd env) p)) = [] \<or>
     m_hash (c_metadata (hd (coll_get (store w) (path_str (absolute (cwd env) p))))) \<noteq> h) \<longrightarrow>
      (\<exists>n w1. 0 < n \<and>
         index_file env w p False = (Returns (Indexed n (path_str p)), w1) \<and>
         index_file env w1 p False =
           (Returns (Skipped ''unchanged''),
            w1\<lparr>calls := calls w1 @ [Call_get (path_str (absolute (cwd env) p))]\<rparr>))) \<and>
   (index_file env w p False = (Returns (Indexed n s), w1) \<longrightarrow>
      index_file env w1 p False =
        (Returns (Skipped ''unchanged''),
         w1\<lparr>calls := calls w1 @ [Call_get (path_str (absolute (cwd env) p))]\<rparr>))"
proof (intro conjI impI)
  assume a: "fv_is_file (fs env (absolute (cwd env) p)) \<and>
    fv_text (fs env (absolute (cwd env) p)) = Text content \<and>
    fv_digest (fs env (absolute (cwd env) p)) = Digest h \<and>
    strip content \<noteq> [] \<and>
    (coll_get (store w) (path_str (absolute (cwd env) p)) = [] \<or>
     m_hash (c_metadata (hd (coll_get (store w) (path_str (absolute (cwd env) p))))) \<noteq> h)"
  then obtain n w1 where f: "0 < n"
    "index_file env w p False = (Returns (Indexed n (path_str p)), w1)"
    using index_file_first_call[OF assms, of env p content h] by blast
  from second_call_unchanged[OF assms f(2)] f
  show "\<exists>n w1. 0 < n \<and>
         index_file env w p False = (Returns (Indexed n (path_str p)), w1) \<and>
         index_file env w1 p False =
           (Returns (Skipped ''unchanged''),
            w1\<lparr>calls := calls w1 @ [Call_get (path_str (absolute (cwd env) p))]\<rparr>)"
    by blast
next
  assume "index_file env w p False = (Returns (Indexed n s), w1)"
  from second_call_unchanged[OF assms this]
  show "index_file env w1 p False =
        (Returns (Skipped ''unchanged''),
         w1\<lparr>calls := calls w1 @ [Call_get (path_str (absolute (cwd env) p))]\<rparr>)" .
qed

theorem unchanged_reindex_skips_witness:
  "(\<exists>n w1. 0 < n \<and>
      index_file (sample_env Skip_existing (\<lambda>p. text_file [104, 105] ''h1'') (\<lambda>p. []))
        empty_world [''a.txt''] False = (Returns (Indexed n ''a.txt''), w1) \<and>
      index_file (sample_env Skip_existing (\<lambda>p. text_file [104, 105] ''h1'') (\<lambda>p. []))
        w1 [''a.txt''] False =
        (Returns (Skipped ''unchanged''), w1\<lparr>calls := calls w1 @ [Call_get ''/work/a.txt'']\<rparr>)) \<and>
   index_file (sample_env Skip_existing (\<lambda>p. text_file [104, 105] ''h1'') (\<lambda>p. []))
     empty_world [''a.txt''] False =
     (Returns (Indexed 1 ''a.txt''),
      \<lparr>store = [sample_chunk ''/work/a.txt'' ''a.txt'' 0 [104, 105] ''h1''],
       calls = [Call_get ''/work/a.txt'', Call_encode [[104, 105]], Call_add [''/work/a.txt::0'']]\<rparr>) \<and>
   index_file (sample_env Skip_existing (\<lambda>p. text_file [104, 105] ''h1'') (\<lambda>p. []))
     \<lparr>store = [sample_chunk ''/work/a.txt'' ''a.txt'' 0 [104, 105] ''h1''],
      calls = [Call_get ''/work/a.txt'', Call_encode [[104, 105]], Call_add [''/work/a.txt::0'']]\<rparr>
     [''a.txt''] False =
     (Returns (Skipped ''unchanged''),
      \<lparr>store = [sample_chunk ''/work/a.txt'' ''a.txt'' 0 [104, 105] ''h1''],
       calls = [Call_get ''/work/a.txt'', Call_encode [[104, 105]], Call_add [''/work/a.txt::0''],
                Call_get ''/work/a.txt'']\<rparr>)"
proof -
  let ?e = "sample_env Skip_existing (\<lambda>p. text_file [104, 105] ''h1'') (\<lambda>p. [])"
  have ch: "chunk_text [104, 105] 500 50 = Some [[104, 105]]"
    using chunk_text_one_window[of "[104, 105]"] by (simp add: strip_def is_space_def)
  have wf: "store_wf (store empty_world)"
    by (simp add: empty_world_def store_wf_def)
  have first: "index_file ?e empty_world [''a.txt''] False =
     (Returns (Indexed 1 ''a.txt''),
      \<lparr>store = [sample_chunk ''/work/a.txt'' ''a.txt'' 0 [104, 105] ''h1''],
       calls = [Call_get ''/work/a.txt'', Call_encode [[104, 105]], Call_add [''/work/a.txt::0'']]\<rparr>)"
    by (simp add: eval_defs ch)
  have a: "\<exists>n w1. 0 < n \<and>
      index_file ?e empty_world [''a.txt''] False = (Returns (Indexed n ''a.txt''), w1) \<and>
      index_file ?e w1 [''a.txt''] False =
        (Returns (Skipped ''unchanged''), w1\<lparr>calls := calls w1 @ [Call_get ''/work/a.txt'']\<rparr>)"
    using unchanged_reindex_skips[OF wf, where env = "?e" and p = "[''a.txt'']"
        and content = "[104, 105]" and h = "''h1''", THEN conjunct1]
    by (simp add: sample_env_def text_file_def empty_world_def coll_get_def absolute_def
        is_absolute_def path_str_def strip_def is_space_def)
  have b: "index_file ?e
     \<lparr>store = [sample_chunk ''/work/a.txt'' ''a.txt'' 0 [104, 105] ''h1''],
      calls = [Call_get ''/work/a.txt'', Call_encode [[104, 105]], Call_add [''/work/a.txt::0'']]\<rparr>
     [''a.txt''] False =
     (Returns (Skipped ''unchanged''),
      \<lparr>store = [sample_chunk ''/work/a.txt'' ''a.txt'' 0 [104, 105] ''h1''],
       calls = [Call_get ''/work/a.txt'', Call_encode [[104, 105]], Call_add [''/work/a.txt::0''],
                Call_get ''/work/a.txt'']\<rparr>)"
    using unchanged_reindex_skips[OF wf, where env = "?e" and p = "[''a.txt'']",
        THEN conjunct2, THEN mp, OF first]
    by (simp add: sample_env_def absolute_def is_absolute_def path_str_def)
  from a first b show ?thesis by blast
qed

section \<open>Invariants across the operations\<close>

text \<open>
  The ids stay well formed under every operation, so the stores this program builds,
  from the empty one on, are the well-formed ones.
\<close>

lemma store_wf_new_records: "store_wf (new_records pre fname h emb chunks)"
  using new_records_path[of _ pre fname h emb chunks] by (simp add: store_wf_def list_all_iff)

lemma store_wf_append: "store_wf (a @ b) \<longleftrightarrow> store_wf a \<and> store_wf b"
  by (simp add: store_wf_def)

lemma store_wf_filter: "store_wf c \<Longrightarrow> store_wf (filter P c)"
  by (simp add: store_wf_def list_all_iff)

lemma coll_add_wf:
  assumes "store_wf c" and "store_wf recs" and "coll_add pol c recs = Inr c'"
  shows "store_wf c'"
  using assms
  by (cases pol) (auto simp: coll_add_def store_wf_append store_wf_filter split: if_splits)

lemma chunk_and_store_wf:
  assumes "store_wf (store w)"
  shows "store_wf (store (snd (chunk_and_store env w p pre h content)))"
proof (cases "chunk_text content 500 50")
  case None
  with assms show ?thesis by (simp add: chunk_and_store_def)
next
  case (Some chunks)
  let ?recs = "new_records pre (name p) h (embed env) chunks"
  show ?thesis
  proof (cases "coll_add (policy env) (store w) ?recs")
    case (Inl e)
    with Some assms show ?thesis by (simp add: chunk_and_store_def Let_def called_def)
  next
    case (Inr c)
    from coll_add_wf[OF assms store_wf_new_records Inr] Some Inr assms show ?thesis
      by (simp add: chunk_and_store_def Let_def called_def)
  qed
qed

lemma index_file_wf:
  assumes "store_wf (store w)"
  shows "store_wf (store (snd (index_file env w p force)))"
proof -
  let ?pre = "path_str (absolute (cwd env) p)"
  let ?ex = "coll_get (store w) ?pre"
  let ?w1 = "called (Call_get ?pre) w"
  let ?wd = "called (Call_delete (map c_id ?ex)) (?w1\<lparr>store := coll_delete (store ?w1) (map c_id ?ex)\<rparr>)"
  have a: "store_wf (store ?w1)" using assms by (simp add: called_def)
  have b: "store_wf (store ?wd)" using assms by (simp add: called_def store_wf_delete)
  note cs = chunk_and_store_wf[OF a, of env p ?pre] chunk_and_store_wf[OF b, of env p ?pre]
  show ?thesis
    using assms a cs
    by (simp add: index_file_def file_hash_def Let_def split: text_read.splits digest_read.splits)
qed

lemma index_directory_loop_wf:
  "store_wf (store w) \<Longrightarrow>
   store_wf (store (snd (index_directory_loop env force exts es w res)))"
proof (induction es arbitrary: w res)
  case Nil
  then show ?case by simp
next
  case (Cons e es)
  show ?case
  proof (cases "is_candidate exts e")
    case False
    with Cons show ?thesis by simp
  next
    case True
    obtain r w' where r: "index_file env w (fst e) force = (r, w')" by (cases "index_file env w (fst e) force")
    with index_file_wf[OF Cons.prems, of env "fst e" force] have wf': "store_wf (store w')" by simp
    from True r wf' Cons.IH[OF wf'] show ?thesis
      by (cases r) simp_all
  qed
qed

lemma hash_consistent_iff:
  "hash_consistent c \<longleftrightarrow>
     (\<forall>r\<in>set c. \<forall>r'\<in>set c. m_path (c_metadata r') = m_path (c_metadata r) \<longrightarrow>
         m_hash (c_metadata r') = m_hash (c_metadata r))"
  by (simp add: hash_consistent_def list_all_iff)

lemma hash_consistent_filter: "hash_consistent c \<Longrightarrow> hash_consistent (filter P c)"
  by (simp add: hash_consistent_iff)

lemma hash_consistent_append_fresh:
  assumes "hash_consistent c" and "coll_get c pre = []"
    and "\<forall>r\<in>set recs. m_path (c_metadata r) = pre \<and> m_hash (c_metadata r) = h"
  shows "hash_consistent (c @ recs)"
proof -
  from assms(2) have "\<forall>r\<in>set c. m_path (c_metadata r) \<noteq> pre"
    by (simp add: coll_get_def filter_empty_conv)
  with assms(1,3) show ?thesis
    unfolding hash_consistent_iff by (metis Un_iff set_append)
qed

lemma chunk_and_store_store:
  assumes wf: "store_wf (store w)" and none: "coll_get (store w) pre = []"
  shows "store (snd (chunk_and_store env w p pre h content)) = store w \<or>
         (\<exists>chunks. store (snd (chunk_and_store env w p pre h content)) =
            store w @ new_records pre (name p) h (embed env) chunks)"
proof (cases "chunk_text content 500 50")
  case None
  then show ?thesis by (simp add: chunk_and_store_def)
next
  case (Some chunks)
  let ?recs = "new_records pre (name p) h (embed env) chunks"
  note fresh = new_records_fresh[OF wf none, of "name p" h "embed env" chunks]
  have "coll_add (policy env) (store w) ?recs = Inr (store w @ ?recs)"
  proof (cases "policy env")
    case Skip_existing
    then show ?thesis by (simp only: coll_add_def add_policy.case fresh(1))
  next
    case Raise_existing
    with fresh(2) show ?thesis by (simp add: coll_add_def)
  qed
  with Some show ?thesis
    by (auto simp: chunk_and_store_def Let_def called_def)
qed

lemma chunk_and_store_hash_consistent:
  assumes wf: "store_wf (store w)" and none: "coll_get (store w) pre = []"
    and hc: "hash_consistent (store w)"
  shows "hash_consistent (store (snd (chunk_and_store env w p pre h content)))"
proof -
  from chunk_and_store_store[OF wf none, of env p h content]
  show ?thesis
  proof
    assume "store (snd (chunk_and_store env w p pre h content)) = store w"
    with hc show ?thesis by simp
  next
    assume "\<exists>chunks. store (snd (chunk_and_store env w p pre h content)) =
            store w @ new_records pre (name p) h (embed env) chunks"
    then obtain chunks where
      st: "store (snd (chunk_and_store env w p pre h content)) =
            store w @ new_records pre (name p) h (embed env) chunks" by blast
    have "\<forall>r\<in>set (new_records pre (name p) h (embed env) chunks).
            m_path (c_metadata r) = pre \<and> m_hash (c_metadata r) = h"
      using new_records_path by blast
    from hash_consistent_append_fresh[OF hc none this] st show ?thesis by simp
  qed
qed

text \<open>Without \<open>force\<close>, indexing a file keeps the hashes of every path uniform.\<close>

lemma index_file_no_force_hash_consistent:
  assumes wf: "store_wf (store w)" and hc: "hash_consistent (store w)"
  shows "hash_consistent (store (snd (index_file env w p False)))"
proof -
  let ?pre = "path_str (absolute (cwd env) p)"
  let ?ex = "coll_get (store w) ?pre"
  let ?w1 = "called (Call_get ?pre) w"
  let ?wd = "called (Call_delete (map c_id ?ex)) (?w1\<lparr>store := coll_delete (store ?w1) (map c_id ?ex)\<rparr>)"
  have d: "hash_consistent (store ?wd)"
    using hc by (simp add: called_def coll_delete_def hash_consistent_filter)
  have dw: "store_wf (store ?wd)" using wf by (simp add: called_def store_wf_delete)
  have dn: "coll_get (store ?wd) ?pre = []" by (simp add: called_def coll_get_deleted)
  note del = chunk_and_store_hash_consistent[OF dw dn d, of env p]
  have fresh: "hash_consistent (store (snd (chunk_and_store env ?w1 p ?pre h content)))"
    if "?ex = []" for h content
    using chunk_and_store_hash_consistent[of ?w1 ?pre env p h content] wf hc that
    by (simp add: called_def)
  show ?thesis
    using hc del fresh
    by (simp add: index_file_def file_hash_def Let_def called_def split: text_read.splits digest_read.splits)
qed

lemma index_directory_wf:
  "store_wf (store w) \<Longrightarrow> store_wf (store (snd (index_directory env w d exts force)))"
  by (simp add: index_directory_def index_directory_loop_wf)

lemma search_store: "store (snd (search env w q k)) = store w"
  by (simp add: search_def Let_def called_def)

lemma answer_collection:
  "p_collection (snd (answer wrap rw)) = Some (store (snd rw))"
  by (cases rw) (simp add: answer_def)

text \<open>
  Every command keeps the ids of the store well formed, when the database opened by
  \<open>init\<close> is one that this program wrote.
\<close>

lemma handle_command_wf:
  fixes env :: "('e, 'd::{one,minus}) env"
  assumes disk: "\<And>db. store_wf (persisted env db)"
    and st: "\<And>c. p_collection st = Some c \<Longrightarrow> store_wf c"
    and after: "p_collection (snd (handle_command env st cmd)) = Some c'"
  shows "store_wf c'"
proof (cases "p_collection st")
  case None
  with after disk show ?thesis
    by (auto simp: handle_command_def Let_def split: if_splits)
next
  case (Some c)
  with st have wf: "store_wf c" by simp
  then have w: "store_wf (store \<lparr>store = c, calls = p_calls st\<rparr>)" by simp
  note ops = index_file_wf[OF w, of env] index_directory_wf[OF w, of env]
    search_store[of env "\<lparr>store = c, calls = p_calls st\<rparr>"]
  from after Some wf ops show ?thesis
    by (auto simp: handle_command_def Let_def answer_collection store_wf_delete
        split: if_splits option.splits)
qed

section \<open>Forced re-indexing\<close>

lemma chunk_text_451: "chunk_text (replicate 451 c) 500 50 =
    Some (filter (\<lambda>w. strip w \<noteq> []) [replicate 451 c, [c]])"
  using chunk_text_two_windows[of "replicate 451 c"] by simp

lemma strip_letter: "strip [97] \<noteq> []" "strip [98] \<noteq> []"
  "strip (replicate 451 97) \<noteq> []" "strip (replicate 451 98) \<noteq> []"
  by (simp_all add: strip_eq_Nil_iff is_space_def)

lemma chunk_text_samples:
  "chunk_text [97] 500 50 = Some [[97]]"
  "chunk_text [98] 500 50 = Some [[98]]"
  "chunk_text (replicate 451 97) 500 50 = Some [replicate 451 97, [97]]"
  "chunk_text (replicate 451 98) 500 50 = Some [replicate 451 98, [98]]"
  using chunk_text_one_window[of "[97]"] chunk_text_one_window[of "[98]"]
  by (simp_all add: chunk_text_451 strip_letter)

text \<open>
  C1. The claim is that every call that proceeds to re-index a path with records first
  deletes them, so that only the new chunking is left. The \<open>delete\<close> stands under
  \<open>if existing['ids'] and not force\<close>: with \<open>force\<close> it is not made. After
  \<open>/work/a.txt\<close> was indexed with two chunks (digest \<open>h1\<close>) and now holds the one
  letter \<open>b\<close> (digest \<open>h2\<close>), the forced call makes no \<open>delete\<close>, the \<open>add\<close> meets
  the id \<open>/work/a.txt::0\<close> already stored, and the store still holds the two old records
  and nothing of the new text, whether the store skips the id (the call then answers
  \<open>indexed\<close>) or rejects it. The same call without \<open>force\<close> deletes both and stores
  the one new record.
\<close>

theorem force_reindex_keeps_old_records:
  "index_file (sample_env Skip_existing (\<lambda>p. text_file (replicate 451 97) ''h1'') (\<lambda>p. []))
     empty_world [''a.txt''] False = (Returns (Indexed 2 ''a.txt''), world_two_chunks) \<and>
   index_file (sample_env Skip_existing (\<lambda>p. text_file [98] ''h2'') (\<lambda>p. []))
     world_two_chunks [''a.txt''] True =
     (Returns (Indexed 1 ''a.txt''),
      world_two_chunks\<lparr>calls := calls world_two_chunks @
        [Call_get ''/work/a.txt'', Call_encode [[98]], Call_add [''/work/a.txt::0'']]\<rparr>) \<and>
   index_file (sample_env Raise_existing (\<lambda>p. text_file [98] ''h2'') (\<lambda>p. []))
     world_two_chunks [''a.txt''] True =
     (Raises DuplicateIDError,
      world_two_chunks\<lparr>calls := calls world_two_chunks @
        [Call_get ''/work/a.txt'', Call_encode [[98]], Call_add [''/work/a.txt::0'']]\<rparr>) \<and>
   index_file (sample_env Skip_existing (\<lambda>p. text_file [98] ''h2'') (\<lambda>p. []))
     world_two_chunks [''a.txt''] False =
     (Returns (Indexed 1 ''a.txt''),
      \<lparr>store = [sample_chunk ''/work/a.txt'' ''a.txt'' 0 [98] ''h2''],
       calls = calls world_two_chunks @
        [Call_get ''/work/a.txt'', Call_delete [''/work/a.txt::0'', ''/work/a.txt::1''],
         Call_encode [[98]], Call_add [''/work/a.txt::0'']]\<rparr>)"
  by (simp add: eval_defs world_two_chunks_def chunk_text_samples)

text \<open>
  C4. The claim is that at any time all records of one path carry one hash. After
  \<open>/work/a.txt\<close> was indexed with one chunk (digest \<open>h1\<close>) and has grown to 451
  letters (digest \<open>h2\<close>, two chunks), the forced call deletes nothing, the store skips
  the id \<open>::0\<close> it has and adds \<open>::1\<close>: the path then has a record with hash
  \<open>h1\<close> and one with hash \<open>h2\<close>. (Without \<open>force\<close> the invariant is kept:
  \<open>index_file_no_force_hash_consistent\<close>.)
\<close>

theorem force_reindex_mixes_hashes:
  "index_file (sample_env Skip_existing (\<lambda>p. text_file [97] ''h1'') (\<lambda>p. []))
     empty_world [''a.txt''] False = (Returns (Indexed 1 ''a.txt''), world_one_chunk) \<and>
   hash_consistent (store world_one_chunk) \<and>
   fst (index_file (sample_env Skip_existing (\<lambda>p. text_file (replicate 451 98) ''h2'') (\<lambda>p. []))
     world_one_chunk [''a.txt''] True) = Returns (Indexed 2 ''a.txt'') \<and>
   store (snd (index_file (sample_env Skip_existing (\<lambda>p. text_file (replicate 451 98) ''h2'') (\<lambda>p. []))
     world_one_chunk [''a.txt''] True)) =
     [sample_chunk ''/work/a.txt'' ''a.txt'' 0 [97] ''h1'',
      sample_chunk ''/work/a.txt'' ''a.txt'' 1 [98] ''h2''] \<and>
   \<not> hash_consistent
     (store (snd (index_file (sample_env Skip_existing (\<lambda>p. text_file (replicate 451 98) ''h2'') (\<lambda>p. []))
     world_one_chunk [''a.txt''] True)))"
  by (simp add: eval_defs world_one_chunk_def chunk_text_samples hash_consistent_def)

theorem force_reindex_mixes_hashes_witness:
  "\<not> hash_consistent
     [sample_chunk ''/work/a.txt'' ''a.txt'' 0 [97] ''h1'',
      sample_chunk ''/work/a.txt'' ''a.txt'' 1 [98] ''h2'']"
  using force_reindex_mixes_hashes by (elim conjE) (simp only: not_False_eq_True)

end
